theory Spec2Isabelle
  imports Main "HOL-Library.Multiset"
begin

section \<open>Python strings\<close>

text \<open>
  A Python \<open>str\<close> is modelled as a \<open>string\<close> with one \<open>char\<close> per code point, so the
  model covers text whose code points are below 256; \<open>length\<close> is Python's \<open>len\<close>.
\<close>

definition isspace :: "char \<Rightarrow> bool" where
  \<comment> \<open>\<open>str.isspace\<close> on one character: the whitespace that \<open>str.split()\<close> and the
      regular expression class \<open>\s\<close> recognise.\<close>
  "isspace c =
     (let n = (of_char c :: nat)
      in (9 \<le> n \<and> n \<le> 13) \<or> (28 \<le> n \<and> n \<le> 32) \<or> n = 133 \<or> n = 160)"

definition isdecimal :: "char \<Rightarrow> bool" where
  \<comment> \<open>\<open>str.isdecimal\<close>: below code point 256 only the ASCII digits.\<close>
  "isdecimal c = (let n = (of_char c :: nat) in 48 \<le> n \<and> n \<le> 57)"

definition digit_value :: "char \<Rightarrow> int" where
  \<comment> \<open>The value of a decimal digit.\<close>
  "digit_value c = int (of_char c) - 48"

definition int_space :: "char \<Rightarrow> bool" where
  \<comment> \<open>The whitespace that \<open>int()\<close> accepts around a literal: \<open>str.isspace\<close> without the
      separators 28 to 31.\<close>
  "int_space c =
     (let n = (of_char c :: nat)
      in (9 \<le> n \<and> n \<le> 13) \<or> n = 32 \<or> n = 133 \<or> n = 160)"

definition int_strip :: "string \<Rightarrow> string" where
  \<comment> \<open>The literal without the whitespace around it.\<close>
  "int_strip s = rev (dropWhile int_space (rev (dropWhile int_space s)))"

fun split_on :: "char \<Rightarrow> string \<Rightarrow> string list" where
  \<comment> \<open>\<open>s.split(sep)\<close> for a separator of one character: always at least one part.\<close>
  "split_on sep [] = [[]]"
| "split_on sep (c # cs) =
     (if c = sep then [] # split_on sep cs
      else (case split_on sep cs of
              [] \<Rightarrow> [[c]]
            | p # ps \<Rightarrow> (c # p) # ps))"

fun words_acc :: "string \<Rightarrow> string \<Rightarrow> string list" where
  \<comment> \<open>The scan of \<open>str.split()\<close>: \<open>cur\<close> is the word being read.\<close>
  "words_acc cur [] = (if cur = [] then [] else [cur])"
| "words_acc cur (c # cs) =
     (if isspace c then (if cur = [] then words_acc [] cs else cur # words_acc [] cs)
      else words_acc (cur @ [c]) cs)"

definition split_ws :: "string \<Rightarrow> string list" where
  \<comment> \<open>\<open>s.split()\<close>: the words between runs of whitespace, none of them empty.\<close>
  "split_ws s = words_acc [] s"

fun join_sp :: "string list \<Rightarrow> string" where
  \<comment> \<open>\<open>" ".join(ws)\<close>\<close>
  "join_sp [] = []"
| "join_sp [w] = w"
| "join_sp (w # ws) = w @ CHR '' '' # join_sp ws"

definition is_word :: "string \<Rightarrow> bool" where
  \<comment> \<open>A word as \<open>split()\<close> returns them: not empty, no whitespace in it.\<close>
  "is_word w = (w \<noteq> [] \<and> \<not> list_ex isspace w)"

section \<open>services/feed\_parser.py\<close>

datatype py_exn = ValueError | TypeError

definition py_digits :: "nat \<Rightarrow> string \<Rightarrow> py_exn + int" where
  \<comment> \<open>The digits of an integer literal: groups of decimal digits joined by single
      underscores. \<open>lim\<close> is the interpreter's \<open>int_max_str_digits\<close> (4300 by default,
      0 for no limit; older interpreters have none): more digits than that raise
      \<open>ValueError\<close> as well.\<close>
  "py_digits lim body =
     (let groups = split_on CHR ''_'' body
      in if list_ex (\<lambda>g. g = [] \<or> list_ex (\<lambda>c. \<not> isdecimal c) g) groups then Inl ValueError
         else if 0 < lim \<and> lim < length (concat groups) then Inl ValueError
         else Inr (foldl (\<lambda>a c. 10 * a + digit_value c) 0 (concat groups)))"

definition py_int :: "nat \<Rightarrow> string \<Rightarrow> py_exn + int" where
  \<comment> \<open>The builtin \<open>int(s)\<close> on a string, base 10: surrounding whitespace, an optional
      sign, then the digits.\<close>
  "py_int lim s =
     (case int_strip s of
        [] \<Rightarrow> Inl ValueError
      | c # cs \<Rightarrow>
          if c = CHR ''-'' then
            (case py_digits lim cs of Inl e \<Rightarrow> Inl e | Inr v \<Rightarrow> Inr (- v))
          else if c = CHR ''+'' then py_digits lim cs
          else py_digits lim (c # cs))"

fun map_int :: "nat \<Rightarrow> string list \<Rightarrow> py_exn + int list" where
  \<comment> \<open>\<open>map(int, parts)\<close> consumed from left to right: the first failure is raised.\<close>
  "map_int lim [] = Inr []"
| "map_int lim (p # ps) =
     (case py_int lim p of
        Inl e \<Rightarrow> Inl e
      | Inr n \<Rightarrow> (case map_int lim ps of Inl e \<Rightarrow> Inl e | Inr ns \<Rightarrow> Inr (n # ns)))"

definition parse_duration :: "nat \<Rightarrow> string option \<Rightarrow> py_exn + int option" where
  \<comment> \<open>\<open>FeedParser.parse_duration\<close>. \<open>Inl\<close> is an exception leaving the function: both
      \<open>try\<close> blocks catch \<open>ValueError\<close> only. An unpacking of the wrong number of values
      raises \<open>ValueError\<close> too.\<close>
  "parse_duration lim duration_str =
     (case duration_str of
        None \<Rightarrow> Inr None
      | Some s \<Rightarrow>
          if s = [] then Inr None
          else (case py_int lim s of
                  Inr n \<Rightarrow> Inr (Some n)
                | Inl TypeError \<Rightarrow> Inl TypeError
                | Inl ValueError \<Rightarrow>
                    (let parts = split_on CHR '':'' s
                     in if length parts = 3 then
                          (case map_int lim parts of
                             Inr [hours, minutes, seconds] \<Rightarrow>
                               Inr (Some (hours * 3600 + minutes * 60 + seconds))
                           | Inr _ \<Rightarrow> Inr None
                           | Inl ValueError \<Rightarrow> Inr None
                           | Inl TypeError \<Rightarrow> Inl TypeError)
                        else if length parts = 2 then
                          (case map_int lim parts of
                             Inr [minutes, seconds] \<Rightarrow> Inr (Some (minutes * 60 + seconds))
                           | Inr _ \<Rightarrow> Inr None
                           | Inl ValueError \<Rightarrow> Inr None
                           | Inl TypeError \<Rightarrow> Inl TypeError)
                        else Inr None)))"

definition colon_ints :: "nat \<Rightarrow> nat \<Rightarrow> string \<Rightarrow> bool" where
  \<comment> \<open>\<open>s\<close> is \<open>k\<close> parts separated by colons, each of them accepted by \<open>int()\<close>.\<close>
  "colon_ints lim k s =
     (length (split_on CHR '':'' s) = k \<and>
      list_all (\<lambda>p. case py_int lim p of Inr _ \<Rightarrow> True | Inl _ \<Rightarrow> False) (split_on CHR '':'' s))"

section \<open>services/summarizer.py\<close>

definition CHUNK_SIZE :: nat where
  \<comment> \<open>\<open>SummarizerService.CHUNK_SIZE\<close>\<close>
  "CHUNK_SIZE = 80000"

fun chunk_loop ::
  \<comment> \<open>The \<open>for word in words\<close> loop of \<open>_chunk_transcript\<close>, on the words still to read.\<close>
  "nat \<Rightarrow> string list \<Rightarrow> string list \<Rightarrow> string list \<Rightarrow> nat \<Rightarrow> string list \<times> string list \<times> nat" where
  "chunk_loop chunk_size [] chunks current_chunk current_length = (chunks, current_chunk, current_length)"
| "chunk_loop chunk_size (word # words) chunks current_chunk current_length =
     (let word_len = length word + 1
      in if current_length + word_len > chunk_size
         then chunk_loop chunk_size words (chunks @ [join_sp current_chunk]) [word] word_len
         else chunk_loop chunk_size words chunks (current_chunk @ [word]) (current_length + word_len))"

definition chunk_transcript :: "nat \<Rightarrow> string \<Rightarrow> string list" where
  \<comment> \<open>\<open>SummarizerService._chunk_transcript\<close>, with \<open>self.CHUNK_SIZE\<close> as \<open>chunk_size\<close>.\<close>
  "chunk_transcript chunk_size transcript =
     (if length transcript \<le> chunk_size then [transcript]
      else (case chunk_loop chunk_size (split_ws transcript) [] [] 0 of
              (chunks, current_chunk, current_length) \<Rightarrow>
                if current_chunk \<noteq> [] then chunks @ [join_sp current_chunk] else chunks))"

definition chunk_ok :: "nat \<Rightarrow> string set \<Rightarrow> string \<Rightarrow> bool" where
  \<comment> \<open>A chunk within the threshold, or one of the words \<open>W\<close>.\<close>
  "chunk_ok n W c = (length c \<le> n \<or> c \<in> W)"

section \<open>models.py\<close>

text \<open>
  The rows of the tables, with the columns the pipeline reads or writes. A nullable column
  is an \<open>option\<close>; a \<open>DateTime\<close> is a number of seconds. The database is the list of rows of
  each table, in the order of insertion. A \<open>JSON\<close> column of a digest holds a decoded JSON
  value, where \<open>JFloat m e\<close> is the float \<open>m * 2 ^ e\<close> and an object is the list of its items,
  and it is \<open>None\<close> when it reads as \<open>None\<close>; a \<open>String\<close> or \<open>Text\<close> column, such as the summary
  of a digest, holds a string or is NULL.
\<close>

datatype json =
    JNull
  | JBool bool
  | JInt int
  | JFloat int int
  | JStr string
  | JArr "json list"
  | JObj "(string \<times> json) list"

record podcast =
  id :: nat
  title :: string

record episode =
  id :: nat
  podcast_id :: nat
  title :: string
  audio_url :: string
  published_at :: "int option"
  status :: string
  processing_step :: "string option"
  transcript :: "string option"
  summary :: "string option"

record episode_analysis =
  episode_id :: nat
  overview :: string
  key_points :: "string list"
  topics :: "string list"
  themes :: "string list"
  predictions :: "string list"
  recommendations :: "string list"
  advice :: "string list"
  notable_quotes :: "string list"

record digest =
  id :: nat
  title :: string
  period_start :: int
  period_end :: int
  podcast_ids :: "nat list option"
  episode_count :: nat
  summary :: "string option"
  common_themes :: "json option"
  trends :: "json option"
  predictions :: "json option"
  recommendations :: "json option"
  key_advice :: "json option"
  action_items :: "json option"
  image_url :: "string option"
  image_prompt :: "string option"
  status :: string
  processing_step :: "string option"
  processing_detail :: "string option"

record digest_episode =
  digest_id :: nat
  episode_id :: nat

record db =
  podcasts :: "podcast list"
  episodes :: "episode list"
  episode_analyses :: "episode_analysis list"
  digests :: "digest list"
  digest_episodes :: "digest_episode list"

record session =
  store :: db
  commits :: "db list"

definition commit :: "db \<Rightarrow> session \<Rightarrow> session" where
  \<comment> \<open>A \<open>db.commit()\<close> that succeeds: the state \<open>d\<close> of the session's objects, whose values
      the columns can hold, becomes the stored one. Every committed state is kept, oldest
      first. A commit that fails stores nothing.\<close>
  "commit d s = \<lparr>store = d, commits = commits s @ [d]\<rparr>"

definition put_episode :: "episode \<Rightarrow> db \<Rightarrow> db" where
  \<comment> \<open>The row of the session's \<open>episode\<close> object, written back under its primary key.\<close>
  "put_episode e d =
     d\<lparr>episodes := map (\<lambda>x. if episode.id x = episode.id e then e else x) (episodes d)\<rparr>"

definition put_digest :: "digest \<Rightarrow> db \<Rightarrow> db" where
  \<comment> \<open>The same for the session's \<open>digest\<close> object.\<close>
  "put_digest g d =
     d\<lparr>digests := map (\<lambda>x. if digest.id x = digest.id g then g else x) (digests d)\<rparr>"

text \<open>
  The database engine behind the session, which is set up outside these modules. A query
  without \<open>ORDER BY\<close> is answered in an order of the engine's choosing: \<open>answer\<close> takes the
  rows that satisfy a query, in the order of the table, and gives them in the order in which
  \<open>query.all()\<close> returns them. \<open>bind_text\<close> is what the engine makes of a value that is
  neither a string nor \<open>None\<close> when a commit writes it to a \<open>Text\<close> column: \<open>Inl\<close> of the
  message of the exception that the commit raises, or \<open>Inr\<close> of what the column holds
  afterwards. After a commit has failed, the next commit of the session raises a
  \<open>PendingRollbackError\<close>; \<open>pending_rollback\<close> gives its message from the message of the
  failure.
\<close>

record engine =
  answer :: "episode list \<Rightarrow> episode list"
  bind_text :: "json \<Rightarrow> string + string option"
  pending_rollback :: "string \<Rightarrow> string"

definition text_column :: "engine \<Rightarrow> json \<Rightarrow> string + string option" where
  \<comment> \<open>A decoded JSON value assigned to a \<open>Text\<close> column, at the commit that writes it.\<close>
  "text_column eng v =
     (case v of JNull \<Rightarrow> Inr None | JStr s \<Rightarrow> Inr (Some s) | _ \<Rightarrow> bind_text eng v)"

definition json_column :: "json \<Rightarrow> json option" where
  \<comment> \<open>A decoded JSON value assigned to a \<open>JSON\<close> column: \<open>None\<close> reads back as \<open>None\<close>.\<close>
  "json_column v = (case v of JNull \<Rightarrow> None | _ \<Rightarrow> Some v)"

section \<open>routers/analysis.py\<close>

record StructuredAnalysis =
  overview :: string
  key_points :: "string list"
  topics :: "string list"
  themes :: "string list"
  predictions :: "string list"
  recommendations :: "string list"
  advice :: "string list"
  notable_quotes :: "string list"
  raw_summary :: string

text \<open>
  The services an episode goes through. Each call either raises, which is \<open>Inl\<close> of the
  exception's message \<open>str(e)\<close>, or returns its result; the result of the analysis has the
  types that \<open>StructuredAnalysis\<close> declares. A run of \<open>process_episode\<close> gives
  the session with its commits, the paths handed to \<open>cleanup\<close> and the message of the
  exception it raises, if any.
\<close>

record services =
  download_audio :: "string \<Rightarrow> string + string"
  transcribe :: "string \<Rightarrow> string + string"
  analyze :: "string \<Rightarrow> string + StructuredAnalysis"

record episode_run =
  session :: session
  cleanup_calls :: "string list"
  raised :: "string option"

definition store_analysis :: "nat \<Rightarrow> StructuredAnalysis \<Rightarrow> db \<Rightarrow> db" where
  \<comment> \<open>Update the analysis row of the episode when there is one, insert one otherwise.\<close>
  "store_analysis eid r d =
     (let row = \<lparr>episode_analysis.episode_id = eid,
                 episode_analysis.overview = StructuredAnalysis.overview r,
                 episode_analysis.key_points = StructuredAnalysis.key_points r,
                 episode_analysis.topics = StructuredAnalysis.topics r,
                 episode_analysis.themes = StructuredAnalysis.themes r,
                 episode_analysis.predictions = StructuredAnalysis.predictions r,
                 episode_analysis.recommendations = StructuredAnalysis.recommendations r,
                 episode_analysis.advice = StructuredAnalysis.advice r,
                 episode_analysis.notable_quotes = StructuredAnalysis.notable_quotes r\<rparr>
      in case find (\<lambda>a. episode_analysis.episode_id a = eid) (episode_analyses d) of
           Some existing_analysis \<Rightarrow>
             d\<lparr>episode_analyses :=
                 map (\<lambda>a. if episode_analysis.episode_id a = eid then row else a)
                   (episode_analyses d)\<rparr>
         | None \<Rightarrow> d\<lparr>episode_analyses := episode_analyses d @ [row]\<rparr>)"

definition cleanup :: "string option \<Rightarrow> string list" where
  \<comment> \<open>The \<open>finally\<close> block of \<open>process_episode\<close>: the calls of \<open>audio_service.cleanup\<close>, none
      when \<open>audio_path\<close> is \<open>None\<close> or the empty string.\<close>
  "cleanup audio_path =
     (case audio_path of None \<Rightarrow> [] | Some p \<Rightarrow> if p = [] then [] else [p])"

definition episode_failed :: "episode \<Rightarrow> string \<Rightarrow> string option \<Rightarrow> session \<Rightarrow> episode_run" where
  \<comment> \<open>The \<open>except Exception\<close> block of \<open>process_episode\<close>, then the \<open>finally\<close> block.\<close>
  "episode_failed episode msg audio_path s =
     (let e = episode\<lparr>episode.status := ''failed'', episode.processing_step := None,
                      episode.summary := Some (''Error: '' @ msg)\<rparr>
      in \<lparr>session = commit (put_episode e (store s)) s,
          cleanup_calls = cleanup audio_path,
          raised = Some msg\<rparr>)"

definition episode_analyzing :: "services \<Rightarrow> episode \<Rightarrow> string \<Rightarrow> string \<Rightarrow> session \<Rightarrow> episode_run" where
  \<comment> \<open>From "Analyze with structured output" to the end of the \<open>try\<close> block.\<close>
  "episode_analyzing svc episode audio_path text s =
     (let e1 = episode\<lparr>episode.processing_step := Some ''analyzing''\<rparr>;
          s1 = commit (put_episode e1 (store s)) s
      in case analyze svc text of
           Inl msg \<Rightarrow> episode_failed e1 msg (Some audio_path) s1
         | Inr analysis_result \<Rightarrow>
             (let e2 = e1\<lparr>episode.summary := Some (raw_summary analysis_result)\<rparr>;
                  d2 = store_analysis (episode.id episode) analysis_result (store s1);
                  e3 = e2\<lparr>episode.status := ''completed'', episode.processing_step := None\<rparr>
              in \<lparr>session = commit (put_episode e3 d2) s1,
                  cleanup_calls = cleanup (Some audio_path),
                  raised = None\<rparr>))"

definition episode_transcribing :: "services \<Rightarrow> episode \<Rightarrow> string \<Rightarrow> session \<Rightarrow> episode_run" where
  \<comment> \<open>The "Transcribe" stage: the transcript is committed as soon as it is there.\<close>
  "episode_transcribing svc episode audio_path s =
     (let e1 = episode\<lparr>episode.processing_step := Some ''transcribing''\<rparr>;
          s1 = commit (put_episode e1 (store s)) s
      in case transcribe svc audio_path of
           Inl msg \<Rightarrow> episode_failed e1 msg (Some audio_path) s1
         | Inr text \<Rightarrow>
             (let e2 = e1\<lparr>episode.transcript := Some text\<rparr>;
                  s2 = commit (put_episode e2 (store s1)) s1
              in episode_analyzing svc e2 audio_path text s2))"

definition episode_downloading :: "services \<Rightarrow> episode \<Rightarrow> session \<Rightarrow> episode_run" where
  \<comment> \<open>The "Download audio" stage.\<close>
  "episode_downloading svc episode s =
     (let e1 = episode\<lparr>episode.processing_step := Some ''downloading''\<rparr>;
          s1 = commit (put_episode e1 (store s)) s
      in case download_audio svc (audio_url e1) of
           Inl msg \<Rightarrow> episode_failed e1 msg None s1
         | Inr audio_path \<Rightarrow> episode_transcribing svc e1 audio_path s1)"

definition process_episode :: "services \<Rightarrow> nat \<Rightarrow> db \<Rightarrow> episode_run" where
  \<comment> \<open>The background task of one episode, run on the stored state \<open>d\<close>.\<close>
  "process_episode svc eid d =
     (case find (\<lambda>e. episode.id e = eid) (episodes d) of
        None \<Rightarrow> \<lparr>session = \<lparr>store = d, commits = []\<rparr>, cleanup_calls = [], raised = None\<rparr>
      | Some episode \<Rightarrow>
          (let e1 = episode\<lparr>episode.status := ''processing'',
                            episode.processing_step := Some ''starting''\<rparr>
           in episode_downloading svc e1
                (commit (put_episode e1 d) \<lparr>store = d, commits = []\<rparr>)))"

text \<open>
  An endpoint answers with its result or with an \<open>HTTPException\<close> of a status code and a
  detail; \<open>stored\<close> is the database after the call, \<open>committed\<close> the states it committed and
  \<open>background_tasks\<close> the episodes for which \<open>process_episode\<close> was scheduled.
\<close>

datatype http_error = HTTPException nat string

record AnalysisStatus =
  episode_id :: nat
  status :: string
  message :: "string option"

record 'a response =
  result :: "http_error + 'a"
  stored :: db
  committed :: "db list"
  background_tasks :: "nat list"

definition analyze_episode :: "nat \<Rightarrow> nat \<Rightarrow> db \<Rightarrow> AnalysisStatus response" where
  \<comment> \<open>The endpoint that starts the analysis of one episode.\<close>
  "analyze_episode pid eid d =
     (case find (\<lambda>e. episode.id e = eid \<and> episode.podcast_id e = pid) (episodes d) of
        None \<Rightarrow>
          \<lparr>result = Inl (HTTPException 404 ''Episode not found''),
           stored = d, committed = [], background_tasks = []\<rparr>
      | Some episode \<Rightarrow>
          if episode.status episode = ''processing'' then
            \<lparr>result = Inr \<lparr>episode_id = eid, status = ''processing'',
                            message = Some ''Analysis already in progress''\<rparr>,
             stored = d, committed = [], background_tasks = []\<rparr>
          else if episode.status episode = ''completed'' \<and> episode.summary episode \<noteq> None
                  \<and> episode.summary episode \<noteq> Some [] then
            \<lparr>result = Inr \<lparr>episode_id = eid, status = ''completed'',
                            message = Some ''Analysis already completed''\<rparr>,
             stored = d, committed = [], background_tasks = []\<rparr>
          else
            (let d1 = put_episode (episode\<lparr>episode.status := ''processing''\<rparr>) d
             in \<lparr>result = Inr \<lparr>episode_id = eid, status = ''processing'',
                                 message = Some ''Analysis started''\<rparr>,
                 stored = d1, committed = [d1], background_tasks = [eid]\<rparr>))"

definition reset_stuck_episodes :: "db \<Rightarrow> nat response" where
  \<comment> \<open>\<open>reset_stuck_episodes\<close>: the result is the number of episodes reset.\<close>
  "reset_stuck_episodes d =
     (let stuck = filter (\<lambda>e. episode.status e \<in> set [''processing'', ''failed'']) (episodes d);
          d1 = d\<lparr>episodes :=
                  map (\<lambda>e. if episode.status e \<in> set [''processing'', ''failed'']
                           then e\<lparr>episode.status := ''pending'', episode.processing_step := None\<rparr>
                           else e) (episodes d)\<rparr>
      in \<lparr>result = Inr (length stuck), stored = d1, committed = [d1], background_tasks = []\<rparr>)"

datatype TimePeriod = LATEST | DAY | WEEK | TWO_WEEKS | THREE_WEEKS | MONTH | CUSTOM

definition days :: "int \<Rightarrow> int" where
  \<comment> \<open>\<open>timedelta(days=n)\<close>, in seconds\<close>
  "days n = n * 86400"

definition weeks :: "int \<Rightarrow> int" where
  \<comment> \<open>\<open>timedelta(weeks=n)\<close>, in seconds\<close>
  "weeks n = n * 604800"

definition get_period_dates :: "TimePeriod \<Rightarrow> int option \<Rightarrow> int option \<Rightarrow> int \<Rightarrow> int option \<times> int option" where
  \<comment> \<open>\<open>get_period_dates\<close> of routers/analysis.py; \<open>now\<close> is \<open>datetime.utcnow()\<close>.\<close>
  "get_period_dates period start_date end_date now =
     (if period = LATEST then (None, None)
      else if period = CUSTOM then
        (start_date, Some (case end_date of Some e \<Rightarrow> e | None \<Rightarrow> now))
      else if period = DAY then (Some (now - days 1), Some now)
      else if period = WEEK then (Some (now - weeks 1), Some now)
      else if period = TWO_WEEKS then (Some (now - weeks 2), Some now)
      else if period = THREE_WEEKS then (Some (now - weeks 3), Some now)
      else if period = MONTH then (Some (now - days 30), Some now)
      else (None, None))"

definition max_date :: "episode list \<Rightarrow> nat \<Rightarrow> int option" where
  \<comment> \<open>A row of the subquery: \<open>max(published_at)\<close> of the group of podcast \<open>p\<close>. The maximum
      ignores NULL and is NULL when the group has no date.\<close>
  "max_date es p =
     (case List.map_filter published_at (filter (\<lambda>e. episode.podcast_id e = p) es) of
        [] \<Rightarrow> None
      | t # ts \<Rightarrow> Some (fold max ts t))"

definition latest_join :: "episode list \<Rightarrow> episode list \<Rightarrow> episode list" where
  \<comment> \<open>The join of the query with the subquery, which groups the whole table: a row stays
      when its date equals the maximum of its podcast. A NULL date equals nothing.\<close>
  "latest_join table query =
     filter (\<lambda>e. case published_at e of
                   None \<Rightarrow> False
                 | Some t \<Rightarrow> max_date table (episode.podcast_id e) = Some t) query"

definition date_filter :: "int option \<Rightarrow> int option \<Rightarrow> episode list \<Rightarrow> episode list" where
  \<comment> \<open>The \<open>elif start_date\<close> branch of the query.\<close>
  "date_filter start_date end_date query =
     (case start_date of
        None \<Rightarrow> query
      | Some a \<Rightarrow>
          (let q1 = filter (\<lambda>e. case published_at e of None \<Rightarrow> False | Some t \<Rightarrow> a \<le> t) query
           in case end_date of
                None \<Rightarrow> q1
              | Some b \<Rightarrow> filter (\<lambda>e. case published_at e of None \<Rightarrow> False | Some t \<Rightarrow> t \<le> b) q1))"

definition podcast_filter :: "nat list option \<Rightarrow> episode list \<Rightarrow> episode list" where
  \<comment> \<open>\<open>if request.podcast_ids\<close>: no filter for \<open>None\<close> and for the empty list.\<close>
  "podcast_filter ids query =
     (case ids of
        None \<Rightarrow> query
      | Some l \<Rightarrow> if l = [] then query else filter (\<lambda>e. episode.podcast_id e \<in> set l) query)"

record BatchAnalysisRequest =
  period :: TimePeriod
  start_date :: "int option"
  end_date :: "int option"
  podcast_ids :: "nat list option"

record BatchAnalysisStatus =
  total_episodes :: nat
  pending :: nat
  processing :: nat
  completed :: nat
  failed :: nat
  episode_ids :: "nat list"

definition select_episodes :: "engine \<Rightarrow> BatchAnalysisRequest \<Rightarrow> int \<Rightarrow> db \<Rightarrow> episode list" where
  \<comment> \<open>\<open>episodes = query.all()\<close> of \<open>batch_analyze\<close>: the rows of the query, as the engine
      answers them.\<close>
  "select_episodes eng request now d =
     (let dates = get_period_dates (period request) (start_date request) (end_date request) now;
          query = podcast_filter (BatchAnalysisRequest.podcast_ids request) (episodes d)
      in answer eng
           (if period request = LATEST then latest_join (episodes d) query
            else date_filter (fst dates) (snd dates) query))"

definition count_status :: "string \<Rightarrow> episode list \<Rightarrow> nat" where
  \<comment> \<open>\<open>sum(1 for e in episodes if e.status == st)\<close>\<close>
  "count_status st es = length (filter (\<lambda>e. episode.status e = st) es)"

definition batch_analyze ::
  "engine \<Rightarrow> BatchAnalysisRequest \<Rightarrow> int \<Rightarrow> db \<Rightarrow> BatchAnalysisStatus response" where
  \<comment> \<open>The batch endpoint: every selected episode that is pending is set to processing and
      scheduled, in one commit.\<close>
  "batch_analyze eng request now d =
     (let selected = select_episodes eng request now d;
          to_start = map episode.id (filter (\<lambda>e. episode.status e = ''pending'') selected);
          d1 = d\<lparr>episodes :=
                  map (\<lambda>e. if episode.id e \<in> set to_start \<and> episode.status e = ''pending''
                           then e\<lparr>episode.status := ''processing''\<rparr> else e) (episodes d)\<rparr>
      in \<lparr>result = Inr \<lparr>total_episodes = length selected,
                          pending = count_status ''pending'' selected,
                          processing = count_status ''processing'' selected
                                       + count_status ''pending'' selected,
                          completed = count_status ''completed'' selected,
                          failed = count_status ''failed'' selected,
                          episode_ids = map episode.id selected\<rparr>,
          stored = d1, committed = [d1], background_tasks = to_start\<rparr>)"

definition step_only_while_processing :: "db \<Rightarrow> bool" where
  \<comment> \<open>Every episode with a processing step has the status processing.\<close>
  "step_only_while_processing d =
     list_all (\<lambda>e. episode.processing_step e \<noteq> None \<longrightarrow> episode.status e = ''processing'')
       (episodes d)"

section \<open>services/digest.py\<close>

definition digest_ARTISTS :: "(string \<times> string) list" where
  \<comment> \<open>\<open>ARTISTS\<close> of services/digest.py: the artists and their styles.\<close>
  "digest_ARTISTS =
     [(''Wassily Kandinsky'', ''Bold geometric shapes, vibrant primary colours, hard-edged circles and diagonal lines, musical rhythm translated to pure abstract form, no representational imagery''),
      (''Vincent van Gogh'', ''Thick swirling impasto brushstrokes, electric yellows and cobalt blues, the scene pulsing with emotional intensity, turbulent sky, heavy visible texture in every mark''),
      (''Salvador Dali'', ''Hyper-realistic surrealist dreamscape, melting impossible objects, vast arid desert extending to infinity, photographic detail applied to absurd scenarios, deep chiaroscuro shadow''),
      (''Katsushika Hokusai'', ''Japanese ukiyo-e woodblock print, bold flat black outlines, stylised ocean waves, graphic pattern fills, indigo and cream colour blocks, negative space as deliberate design element''),
      (''Gustav Klimt'', ''Art Nouveau gold leaf, ornamental spiral patterns covering every surface, jewel-like mosaic tiles, Byzantine richness, figures dissolving into decorative abstraction, copper and burnished gold dominant''),
      (''Jackson Pollock'', ''Abstract expressionist action painting, dense layered drips and splashes of industrial enamel, chaotic web of poured lines, raw canvas visible beneath, violent kinetic energy frozen in paint''),
      (''Egon Schiele'', ''Viennese expressionism, raw angular contour lines, elongated distorted forms, sickly ochre and burnt sienna palette, scratchy gestural marks, claustrophobic psychological rawness''),
      (''J.M.W. Turner'', ''Romantic sublime, atmosphere dissolving all solid forms into luminous vapour, golden apocalyptic light consuming the horizon, loose watercolour washes, barely legible forms emerging from radiant mist''),
      (''Roy Lichtenstein'', ''Bold black comic-strip outlines, Ben-Day dot pattern fills, flat primary colours, dramatic close-up cropping, graphic mechanical reproduction aesthetic, ironic pop art sensibility''),
      (''Edvard Munch'', ''Nordic expressionism, anxiety encoded in writhing undulating landscape lines, sickly green and blood-red sky, hollow-eyed figures, the horizon itself trembling with existential dread''),
      (''Georges Seurat'', ''Pointillist technique, entire image built from thousands of tiny pure-colour dots, shimmering optical colour mixing, scientific colour theory applied methodically, rigid formal composition''),
      (''Hieronymus Bosch'', ''Flemish Renaissance grotesque, teeming with impossible hybrid creatures, fantastical architectural structures, dense narrative detail in every corner, jewel-toned accents on earthy ground, medieval symbolism''),
      (''Frida Kahlo'', ''Mexican folk art fused with surrealism, flat decorative style, dense tropical foliage, bold botanical colour, symbolic objects charged with intense personal meaning, naive directness''),
      (''Mark Rothko'', ''Colour field abstraction, two or three luminous soft-edged rectangles of pure colour floating on canvas, emotional resonance through scale and hue relationship alone, meditative silence''),
      (''Edward Hopper'', ''American realism, stark raking light cutting across architecture, profound urban loneliness, diner windows glowing at night, long afternoon shadows, psychological stillness''),
      (''Utagawa Hiroshige'', ''Japanese woodblock landscape, flat colour planes divided by bold outlines, snow falling in diagonal lines, travellers tiny against monumental nature, deep indigo and terracotta palette''),
      (''Paul Gauguin'', ''Post-impressionist palette, flat bold outlines, non-naturalistic saturated colour fills, figures simplified to monumental shapes, decorative pattern, tropical flora as charged backdrop''),
      (''Umberto Boccioni'', ''Italian Futurism, dynamic force lines radiating outward, multiple simultaneous states of motion layered, fractured planes of colour, industrial energy and speed made visible''),
      (''Alphonse Mucha'', ''Czech Art Nouveau, flowing curvilinear botanical borders, pearl and rose palette, mosaic-like halos, ornate floral frame surrounding the central image, decorative flat linework''),
      (''Kazimir Malevich'', ''Russian Suprematism, pure geometric forms floating on white ground, black and red squares and rectangles, absolute reduction to essential form, zero reference to the natural world'')]"

record DigestResult =
  summary :: json
  common_themes :: json
  trends :: json
  predictions :: json
  recommendations :: json
  key_advice :: json
  action_items :: json
  image_url :: "string option"
  image_prompt :: "string option"

text \<open>
  What \<open>json.loads\<close> does with a text: a value, a \<open>JSONDecodeError\<close>, or another
  exception with its message (a \<open>RecursionError\<close> on a deeply nested text).
\<close>

datatype loaded = Parsed json | JSONDecodeError | Raised string

definition startswith :: "string \<Rightarrow> string \<Rightarrow> bool" where
  \<comment> \<open>\<open>s.startswith(p)\<close>\<close>
  "startswith s p = (take (length p) s = p)"

fun lazy_body :: "string \<Rightarrow> string \<Rightarrow> string option" where
  \<comment> \<open>The group \<open>(\{.*?\})\<close> after its opening brace, \<open>acc\<close> being what is matched so far: it
      ends at the first closing brace that whitespace and the closing fence follow.\<close>
  "lazy_body acc [] = None"
| "lazy_body acc (c # cs) =
     (if c = CHR ''}'' \<and> startswith (dropWhile isspace cs) [CHR 0x60, CHR 0x60, CHR 0x60]
      then Some (acc @ [c])
      else lazy_body (acc @ [c]) cs)"

definition fenced_at :: "string \<Rightarrow> string option" where
  \<comment> \<open>A match of the fenced pattern that starts at the head of \<open>s\<close>: its group 1.\<close>
  "fenced_at s =
     (if startswith s [CHR 0x60, CHR 0x60, CHR 0x60] then
        (let r1 = drop 3 s;
             r2 = (if startswith r1 ''json'' then drop 4 r1 else r1)
         in case dropWhile isspace r2 of
              [] \<Rightarrow> None
            | c # cs \<Rightarrow> if c = CHR ''{'' then lazy_body [c] cs else None)
      else None)"

fun fenced_json :: "string \<Rightarrow> string option" where
  \<comment> \<open>\<open>re.search\<close> of the fenced pattern, with \<open>re.DOTALL\<close>: the leftmost match.\<close>
  "fenced_json [] = fenced_at []"
| "fenced_json (c # cs) =
     (case fenced_at (c # cs) of Some g \<Rightarrow> Some g | None \<Rightarrow> fenced_json cs)"

definition brace_span :: "string \<Rightarrow> string option" where
  \<comment> \<open>\<open>re.search(r'\{.*\}', response, re.DOTALL)\<close>: from the first opening brace to the last
      closing brace after it.\<close>
  "brace_span s =
     (let u = rev (dropWhile (\<lambda>c. c \<noteq> CHR ''}'') (rev (dropWhile (\<lambda>c. c \<noteq> CHR ''{'') s)))
      in if u = [] then None else Some u)"

definition parse_last :: "(string \<Rightarrow> loaded) \<Rightarrow> string \<Rightarrow> string + json" where
  \<comment> \<open>The third attempt of \<open>_parse_json_response\<close> and its \<open>return {}\<close>.\<close>
  "parse_last loads response =
     (case brace_span response of
        None \<Rightarrow> Inr (JObj [])
      | Some g \<Rightarrow>
          (case loads g of
             Parsed v \<Rightarrow> Inr v
           | JSONDecodeError \<Rightarrow> Inr (JObj [])
           | Raised msg \<Rightarrow> Inl msg))"

definition parse_json_response :: "(string \<Rightarrow> loaded) \<Rightarrow> string \<Rightarrow> string + json" where
  \<comment> \<open>\<open>DigestService._parse_json_response\<close>: only \<open>JSONDecodeError\<close> is caught, any other
      exception of \<open>json.loads\<close> leaves the function (\<open>Inl\<close> of its message).\<close>
  "parse_json_response loads response =
     (case loads response of
        Parsed v \<Rightarrow> Inr v
      | Raised msg \<Rightarrow> Inl msg
      | JSONDecodeError \<Rightarrow>
          (case fenced_json response of
             None \<Rightarrow> parse_last loads response
           | Some g \<Rightarrow>
               (case loads g of
                  Parsed v \<Rightarrow> Inr v
                | Raised msg \<Rightarrow> Inl msg
                | JSONDecodeError \<Rightarrow> parse_last loads response)))"

definition type_name :: "json \<Rightarrow> string" where
  \<comment> \<open>The name of the Python type of a decoded JSON value.\<close>
  "type_name v =
     (case v of JNull \<Rightarrow> ''NoneType'' | JBool b \<Rightarrow> ''bool'' | JInt i \<Rightarrow> ''int''
      | JFloat m e \<Rightarrow> ''float'' | JStr s \<Rightarrow> ''str'' | JArr l \<Rightarrow> ''list'' | JObj kv \<Rightarrow> ''dict'')"

definition attribute_error :: "json \<Rightarrow> string" where
  \<comment> \<open>The message of the \<open>AttributeError\<close> of \<open>.get\<close> on a value that is no dictionary.\<close>
  "attribute_error v =
     [CHR 0x27] @ type_name v @ [CHR 0x27] @ '' object has no attribute ''
       @ [CHR 0x27] @ ''get'' @ [CHR 0x27]"

definition dict_get :: "(string \<times> json) list \<Rightarrow> string \<Rightarrow> json \<Rightarrow> json" where
  \<comment> \<open>\<open>d.get(key, dflt)\<close> on a dictionary, given by its items.\<close>
  "dict_get kv key dflt = (case map_of kv key of Some v \<Rightarrow> v | None \<Rightarrow> dflt)"

definition py_get :: "json \<Rightarrow> string \<Rightarrow> json \<Rightarrow> string + json" where
  \<comment> \<open>\<open>result.get(key, dflt)\<close>: an \<open>AttributeError\<close> when \<open>result\<close> is no dictionary.\<close>
  "py_get obj key dflt =
     (case obj of
        JObj kv \<Rightarrow> Inr (dict_get kv key dflt)
      | _ \<Rightarrow> Inl (attribute_error obj))"

definition truthy :: "json \<Rightarrow> bool" where
  \<comment> \<open>The truth value of a decoded JSON value.\<close>
  "truthy v =
     (case v of JNull \<Rightarrow> False | JBool b \<Rightarrow> b | JInt i \<Rightarrow> i \<noteq> 0 | JFloat m e \<Rightarrow> m \<noteq> 0
      | JStr s \<Rightarrow> s \<noteq> [] | JArr l \<Rightarrow> l \<noteq> [] | JObj kv \<Rightarrow> kv \<noteq> [])"

text \<open>
  What \<open>process_digest\<close> hands to the synthesis for one episode: its title, the title of
  its podcast, its date and a part of its analysis.
\<close>

record analysis_subset =
  overview :: string
  key_points :: "string list"
  themes :: "string list"
  predictions :: "string list"
  recommendations :: "string list"
  advice :: "string list"

record projection =
  title :: string
  podcast_title :: string
  published_at :: "int option"
  analysis :: analysis_subset

text \<open>
  The world around \<open>generate_digest\<close>: \<open>complete\<close> builds the prompt from the episodes and
  the period and calls the language model, giving the text of the response or the message
  of the exception raised; \<open>loads\<close> is \<open>json.loads\<close>; \<open>choice\<close> is the index that
  \<open>random.choice\<close> draws; \<open>generate_image\<close> is the image service, \<open>None\<close> on every failure;
  \<open>str_of\<close> is \<open>str()\<close> on a value that is not a string.
\<close>

record world =
  complete :: "projection list \<Rightarrow> int \<Rightarrow> int \<Rightarrow> string + string"
  loads :: "string \<Rightarrow> loaded"
  choice :: nat
  generate_image :: "string \<Rightarrow> string option"
  str_of :: "json \<Rightarrow> string"

text \<open>
  What a call of \<open>generate_digest\<close> leaves: the result or the message of the exception it
  raises, the details given to the progress callback, the inputs of the calls to the language
  model and the prompts sent to the image service.
\<close>

record generated =
  outcome :: "string + DigestResult"
  reported :: "string list"
  synthesis_calls :: "projection list list"
  image_calls :: "string list"

definition em_dash :: string where
  \<comment> \<open>The dash U+2014 of the progress message, beyond the code points of the model: it
      stands as its three UTF-8 bytes.\<close>
  "em_dash = [CHR 0xE2, CHR 0x80, CHR 0x94]"

definition format_str :: "world \<Rightarrow> json \<Rightarrow> string" where
  \<comment> \<open>A value inside an f-string.\<close>
  "format_str w v = (case v of JStr s \<Rightarrow> s | _ \<Rightarrow> str_of w v)"

definition digest_result :: "json \<Rightarrow> string option \<Rightarrow> string option \<Rightarrow> string + DigestResult" where
  \<comment> \<open>The final \<open>return DigestResult(...)\<close> of \<open>generate_digest\<close>.\<close>
  "digest_result r url prompt =
     (case r of
        JObj kv \<Rightarrow>
          Inr \<lparr>summary = dict_get kv ''summary'' (JStr []),
               common_themes = dict_get kv ''common_themes'' (JArr []),
               trends = dict_get kv ''trends'' (JArr []),
               predictions = dict_get kv ''predictions'' (JArr []),
               recommendations = dict_get kv ''recommendations'' (JArr []),
               key_advice = dict_get kv ''key_advice'' (JArr []),
               action_items = dict_get kv ''action_items'' (JArr []),
               image_url = url, image_prompt = prompt\<rparr>
      | _ \<Rightarrow> Inl (attribute_error r))"

definition chosen_artist :: "world \<Rightarrow> string \<times> string" where
  \<comment> \<open>\<open>random.choice(ARTISTS)\<close>\<close>
  "chosen_artist w = digest_ARTISTS ! (choice w mod length digest_ARTISTS)"

definition compose_prompt :: "world \<Rightarrow> json \<Rightarrow> string" where
  \<comment> \<open>The f-string assigned to \<open>image_prompt\<close>.\<close>
  "compose_prompt w description =
     ''Painting in the style of '' @ fst (chosen_artist w) @ ''. '' @ snd (chosen_artist w)
       @ ''. Scene: '' @ format_str w description @ ''. No text, no words, no letters.''"

definition digest_image :: "world \<Rightarrow> projection list \<Rightarrow> json \<Rightarrow> bool \<Rightarrow> generated" where
  \<comment> \<open>\<open>generate_digest\<close> from "Generate image if requested" on, \<open>r\<close> being the parsed
      response. \<open>reported\<close> is what the progress callback receives.\<close>
  "digest_image w eps r want_image =
     (if \<not> want_image then
        \<lparr>outcome = digest_result r None None, reported = [],
         synthesis_calls = [eps], image_calls = []\<rparr>
      else
        (case py_get r ''image_description'' JNull of
           Inl msg \<Rightarrow>
             \<lparr>outcome = Inl msg, reported = [], synthesis_calls = [eps], image_calls = []\<rparr>
         | Inr description \<Rightarrow>
             if truthy description then
               \<lparr>outcome = digest_result r (generate_image w (compose_prompt w description))
                            (Some (compose_prompt w description)),
                reported = [''Selecting artist and composing image prompt...'',
                  ''Painting in the style of '' @ fst (chosen_artist w) @ '' '' @ em_dash
                    @ '' this takes ~30s...''],
                synthesis_calls = [eps], image_calls = [compose_prompt w description]\<rparr>
             else
               \<lparr>outcome = digest_result r None None, reported = [],
                synthesis_calls = [eps], image_calls = []\<rparr>))"

definition generate_digest :: "world \<Rightarrow> projection list \<Rightarrow> int \<Rightarrow> int \<Rightarrow> bool \<Rightarrow> generated" where
  \<comment> \<open>\<open>DigestService.generate_digest\<close>\<close>
  "generate_digest w eps p_start p_end want_image =
     (if eps = [] then
        \<lparr>outcome = Inr \<lparr>summary = JStr ''No episodes to analyze.'', common_themes = JArr [],
                           trends = JArr [], predictions = JArr [], recommendations = JArr [],
                           key_advice = JArr [], action_items = JArr [],
                           image_url = None, image_prompt = None\<rparr>,
         reported = [], synthesis_calls = [], image_calls = []\<rparr>
      else
        (case complete w eps p_start p_end of
           Inl msg \<Rightarrow>
             \<lparr>outcome = Inl msg, reported = [], synthesis_calls = [eps], image_calls = []\<rparr>
         | Inr response \<Rightarrow>
             (case parse_json_response (loads w) response of
                Inl msg \<Rightarrow>
                  \<lparr>outcome = Inl msg, reported = [], synthesis_calls = [eps], image_calls = []\<rparr>
              | Inr r \<Rightarrow> digest_image w eps r want_image)))"

section \<open>routers/digests.py\<close>

definition ARTISTS :: "string list" where
  \<comment> \<open>\<open>ARTISTS\<close> of routers/digests.py\<close>
  "ARTISTS = [''Kandinsky'', ''Monet'', ''Picasso'', ''van Gogh'', ''Dali'', ''Klee'']"

fun str_nat :: "nat \<Rightarrow> string" where
  \<comment> \<open>A count inside an f-string: its decimal digits.\<close>
  "str_nat n =
     (if n < 10 then [char_of (48 + n)] else str_nat (n div 10) @ [char_of (48 + n mod 10)])"

declare str_nat.simps [simp del]

text \<open>
  A run of \<open>process_digest\<close>: the session with its commits, the inputs of the calls to the
  synthesis, the prompts sent to the image service and the message of the exception it
  raises, if any.
\<close>

record digest_run =
  digest_session :: session
  synthesis_inputs :: "projection list list"
  image_prompts :: "string list"
  digest_raised :: "string option"

definition update_digest_progress :: "digest \<Rightarrow> string \<Rightarrow> string \<Rightarrow> digest" where
  \<comment> \<open>The two assignments of \<open>_update_digest_progress\<close>; its commit is made by the caller.\<close>
  "update_digest_progress g step detail =
     g\<lparr>digest.processing_step := Some step, digest.processing_detail := Some detail\<rparr>"

definition in_period :: "digest \<Rightarrow> episode \<Rightarrow> bool" where
  \<comment> \<open>The first filter of the query of \<open>process_digest\<close>: completed and dated within the
      period. A NULL date is in no period.\<close>
  "in_period g e =
     (episode.status e = ''completed'' \<and>
      (case episode.published_at e of
         None \<Rightarrow> False
       | Some t \<Rightarrow> period_start g \<le> t \<and> t \<le> period_end g))"

definition matching :: "digest \<Rightarrow> db \<Rightarrow> episode list" where
  \<comment> \<open>The rows that satisfy the query of \<open>process_digest\<close>: the episodes in the period, of
      the podcasts of the digest when it names some.\<close>
  "matching g d = podcast_filter (digest.podcast_ids g) (filter (in_period g) (episodes d))"

definition qualifying :: "engine \<Rightarrow> digest \<Rightarrow> db \<Rightarrow> episode list" where
  \<comment> \<open>\<open>episodes = query.all()\<close> of \<open>process_digest\<close>: the matching rows, as the engine answers
      them.\<close>
  "qualifying eng g d = answer eng (matching g d)"

definition project :: "episode \<Rightarrow> episode_analysis \<Rightarrow> db \<Rightarrow> projection" where
  \<comment> \<open>The dictionary appended to \<open>episodes_with_analysis\<close>; the date stays a number.\<close>
  "project ep a d =
     \<lparr>projection.title = episode.title ep,
      podcast_title =
        (case find (\<lambda>p. podcast.id p = episode.podcast_id ep) (podcasts d) of
           Some p \<Rightarrow> podcast.title p
         | None \<Rightarrow> ''Unknown''),
      projection.published_at = episode.published_at ep,
      analysis =
        \<lparr>analysis_subset.overview = episode_analysis.overview a,
         analysis_subset.key_points = episode_analysis.key_points a,
         analysis_subset.themes = episode_analysis.themes a,
         analysis_subset.predictions = episode_analysis.predictions a,
         analysis_subset.recommendations = episode_analysis.recommendations a,
         analysis_subset.advice = episode_analysis.advice a\<rparr>\<rparr>"

primrec collect ::
  \<comment> \<open>The loop over \<open>enumerate(episodes)\<close>: an episode with an analysis is projected and
      linked to the digest, and the progress is committed with the link.\<close>
  "nat \<Rightarrow> nat \<Rightarrow> (nat \<times> episode) list \<Rightarrow> digest \<Rightarrow> projection list \<Rightarrow> session
     \<Rightarrow> digest \<times> projection list \<times> session" where
  "collect did tot [] g acc s = (g, acc, s)"
| "collect did tot (x # rest) g acc s =
     (case x of (i, ep) \<Rightarrow>
        (case find (\<lambda>a. episode_analysis.episode_id a = episode.id ep)
                (episode_analyses (store s)) of
           None \<Rightarrow> collect did tot rest g acc s
         | Some a \<Rightarrow>
             (let d1 = (store s)\<lparr>digest_episodes := digest_episodes (store s)
                          @ [\<lparr>digest_id = did, digest_episode.episode_id = episode.id ep\<rparr>]\<rparr>;
                  g1 = update_digest_progress g ''collecting_episodes''
                         (''Reading episode '' @ str_nat (i + 1) @ ''/'' @ str_nat tot @ '': ''
                            @ take 40 (episode.title ep) @ ''...'')
              in collect did tot rest g1 (acc @ [project ep a (store s)])
                   (commit (put_digest g1 d1) s))))"

primrec report :: "string list \<Rightarrow> digest \<Rightarrow> session \<Rightarrow> digest \<times> session" where
  \<comment> \<open>The progress callback, once for every detail that \<open>generate_digest\<close> reports.\<close>
  "report [] g s = (g, s)"
| "report (detail # details) g s =
     (let g1 = update_digest_progress g ''generating_image'' detail
      in report details g1 (commit (put_digest g1 (store s)) s))"

definition digest_failed ::
  "digest \<Rightarrow> string \<Rightarrow> session \<Rightarrow> projection list list \<Rightarrow> string list \<Rightarrow> digest_run" where
  \<comment> \<open>The \<open>except Exception\<close> block of \<open>process_digest\<close>, entered from a call that raised.\<close>
  "digest_failed g msg s calls prompts =
     (let g1 = g\<lparr>digest.status := ''failed'', digest.processing_step := None,
                  digest.processing_detail := None,
                  digest.summary := Some (''Error: '' @ msg)\<rparr>
      in \<lparr>digest_session = commit (put_digest g1 (store s)) s,
          synthesis_inputs = calls, image_prompts = prompts, digest_raised = Some msg\<rparr>)"

definition digest_completed :: "digest \<Rightarrow> DigestResult \<Rightarrow> string option \<Rightarrow> nat \<Rightarrow> digest" where
  \<comment> \<open>"Update digest with results", as the row reads once it is stored: \<open>tx\<close> is what the
      summary column holds.\<close>
  "digest_completed g r tx ep_count =
     g\<lparr>digest.summary := tx,
       digest.common_themes := json_column (DigestResult.common_themes r),
       digest.trends := json_column (DigestResult.trends r),
       digest.predictions := json_column (DigestResult.predictions r),
       digest.recommendations := json_column (DigestResult.recommendations r),
       digest.key_advice := json_column (DigestResult.key_advice r),
       digest.action_items := json_column (DigestResult.action_items r),
       digest.image_url := DigestResult.image_url r,
       digest.image_prompt := DigestResult.image_prompt r,
       digest.episode_count := ep_count,
       digest.status := ''completed'',
       digest.processing_step := None,
       digest.processing_detail := None\<rparr>"

definition digest_stored ::
  "engine \<Rightarrow> digest \<Rightarrow> DigestResult \<Rightarrow> nat \<Rightarrow> session \<Rightarrow> projection list list \<Rightarrow> string list
     \<Rightarrow> digest_run" where
  \<comment> \<open>"Update digest with results" and its commit. When the engine refuses the summary, the
      commit raises and stores nothing; the commit of the \<open>except Exception\<close> block then
      raises the \<open>PendingRollbackError\<close>, which leaves \<open>process_digest\<close> in place of the first
      exception.\<close>
  "digest_stored eng g r ep_count s calls prompts =
     (case text_column eng (DigestResult.summary r) of
        Inl msg \<Rightarrow>
          \<lparr>digest_session = s, synthesis_inputs = calls, image_prompts = prompts,
           digest_raised = Some (pending_rollback eng msg)\<rparr>
      | Inr tx \<Rightarrow>
          \<lparr>digest_session = commit (put_digest (digest_completed g r tx ep_count) (store s)) s,
           synthesis_inputs = calls, image_prompts = prompts, digest_raised = None\<rparr>)"

definition digest_generating ::
  "engine \<Rightarrow> world \<Rightarrow> digest \<Rightarrow> projection list \<Rightarrow> session \<Rightarrow> digest_run" where
  \<comment> \<open>From "Generate digest via Claude" to the end of the \<open>try\<close> block.\<close>
  "digest_generating eng w g eps s =
     (let ep_count = length eps;
          g1 = update_digest_progress g ''generating_content''
                 (''Claude is synthesising insights from '' @ str_nat ep_count @ '' episodes...'');
          s1 = commit (put_digest g1 (store s)) s;
          gen = generate_digest w eps (period_start g1) (period_end g1) True
      in case report (reported gen) g1 s1 of
           (g2, s2) \<Rightarrow>
             (case outcome gen of
                Inl msg \<Rightarrow> digest_failed g2 msg s2 (synthesis_calls gen) (image_calls gen)
              | Inr r \<Rightarrow>
                  digest_stored eng g2 r ep_count s2 (synthesis_calls gen) (image_calls gen)))"

definition digest_collected ::
  "engine \<Rightarrow> world \<Rightarrow> digest \<Rightarrow> projection list \<Rightarrow> session \<Rightarrow> digest_run" where
  \<comment> \<open>The commit after the loop, and the end without synthesis when no episode has an
      analysis.\<close>
  "digest_collected eng w g eps s =
     (let s1 = commit (put_digest g (store s)) s
      in if eps = [] then
           (let g1 = g\<lparr>digest.status := ''completed'', digest.processing_step := None,
                       digest.processing_detail := None,
                       digest.summary :=
                         Some ''No analyzed episodes found in this time period.'',
                       digest.episode_count := 0\<rparr>
            in \<lparr>digest_session = commit (put_digest g1 (store s1)) s1,
                synthesis_inputs = [], image_prompts = [], digest_raised = None\<rparr>)
         else digest_generating eng w g eps s1)"

definition process_digest :: "engine \<Rightarrow> world \<Rightarrow> nat \<Rightarrow> db \<Rightarrow> digest_run" where
  \<comment> \<open>The background task of one digest, run on the stored state \<open>d\<close>.\<close>
  "process_digest eng w did d =
     (case find (\<lambda>g. digest.id g = did) (digests d) of
        None \<Rightarrow>
          \<lparr>digest_session = \<lparr>store = d, commits = []\<rparr>, synthesis_inputs = [],
           image_prompts = [], digest_raised = None\<rparr>
      | Some g \<Rightarrow>
          (let g1 = update_digest_progress (g\<lparr>digest.status := ''processing''\<rparr>)
                      ''collecting_episodes'' ''Finding analysed episodes...'';
               s1 = commit (put_digest g1 d) \<lparr>store = d, commits = []\<rparr>;
               eps = qualifying eng g1 d;
               tot = length eps;
               g2 = update_digest_progress g1 ''collecting_episodes''
                      (''Found '' @ str_nat tot @ '' episodes, reading analyses...'');
               s2 = commit (put_digest g2 (store s1)) s1
           in case collect did tot (enumerate 0 eps) g2 [] s2 of
                (g3, acc, s3) \<Rightarrow> digest_collected eng w g3 acc s3))"

definition with_analysis :: "db \<Rightarrow> episode list \<Rightarrow> episode list" where
  \<comment> \<open>The episodes that have an analysis row.\<close>
  "with_analysis d eps =
     filter (\<lambda>e. find (\<lambda>a. episode_analysis.episode_id a = episode.id e) (episode_analyses d)
                  \<noteq> None) eps"

definition links :: "nat \<Rightarrow> db \<Rightarrow> episode list \<Rightarrow> digest_episode list" where
  \<comment> \<open>The link rows of a digest for the episodes that have an analysis.\<close>
  "links did d eps =
     map (\<lambda>e. \<lparr>digest_id = did, digest_episode.episode_id = episode.id e\<rparr>) (with_analysis d eps)"

definition projected :: "db \<Rightarrow> episode list \<Rightarrow> projection list" where
  \<comment> \<open>The projections of the episodes that have an analysis.\<close>
  "projected d eps =
     List.map_filter
       (\<lambda>e. map_option (\<lambda>a. project e a d)
              (find (\<lambda>a. episode_analysis.episode_id a = episode.id e) (episode_analyses d))) eps"

definition word_char :: "char \<Rightarrow> bool" where
  \<comment> \<open>The class \<open>\w\<close> of a pattern on \<open>str\<close>: alphanumeric or the underscore.\<close>
  "word_char c =
     (let n = (of_char c :: nat)
      in (48 \<le> n \<and> n \<le> 57) \<or> (65 \<le> n \<and> n \<le> 90) \<or> n = 95 \<or> (97 \<le> n \<and> n \<le> 122)
         \<or> n = 170 \<or> n = 178 \<or> n = 179 \<or> n = 181 \<or> n = 185 \<or> n = 186
         \<or> (188 \<le> n \<and> n \<le> 190) \<or> (192 \<le> n \<and> n \<le> 214) \<or> (216 \<le> n \<and> n \<le> 246)
         \<or> (248 \<le> n \<and> n \<le> 255))"

definition name_char :: "char \<Rightarrow> bool" where
  \<comment> \<open>The class \<open>[\w\s]\<close>\<close>
  "name_char c = (word_char c \<or> isspace c)"

definition style_at :: "string \<Rightarrow> string option" where
  \<comment> \<open>A match of \<open>style of [\w\s]+?[.,]\<close> that starts at the head of \<open>s\<close>: what follows
      the match. The lazy name ends at the first character outside its class, which has to
      be the full stop or the comma.\<close>
  "style_at s =
     (if startswith s ''style of '' then
        (case dropWhile name_char (drop 9 s) of
           [] \<Rightarrow> None
         | t # rest \<Rightarrow>
             if (t = CHR ''.'' \<or> t = CHR '','') \<and> length (t # rest) < length (drop 9 s)
             then Some rest else None)
      else None)"

lemma style_at_shorter: "style_at s = Some r \<Longrightarrow> length r < length s"
proof -
  assume a: "style_at s = Some r"
  then obtain t where t: "dropWhile name_char (drop 9 s) = t # r"
    by (auto simp: style_at_def split: if_splits list.splits)
  have "length (dropWhile name_char (drop 9 s)) \<le> length (drop 9 s)"
    by (rule length_dropWhile_le)
  with t show ?thesis by simp
qed

function re_sub_style :: "string \<Rightarrow> string \<Rightarrow> string" where
  \<comment> \<open>\<open>re.sub\<close> of the pattern by \<open>style of {new}.\<close>: every match from left to right, the
      scan going on behind each match.\<close>
  "re_sub_style new [] = []"
| "re_sub_style new (c # cs) =
     (case style_at (c # cs) of
        Some rest \<Rightarrow> ''style of '' @ new @ ''.'' @ re_sub_style new rest
      | None \<Rightarrow> c # re_sub_style new cs)"
  by pat_completeness auto
termination
  by (relation "measure (\<lambda>(new, s). length s)") (auto dest: style_at_shorter)

definition palette :: "string list" where
  \<comment> \<open>The artists that an image prompt can name: those of the service, which writes the
      prompt, and those of the router, which rewrites it.\<close>
  "palette = map fst digest_ARTISTS @ ARTISTS"

record 'a regeneration = "'a response" +
  requested :: "string list"

definition http_failure :: "nat \<Rightarrow> string \<Rightarrow> db \<Rightarrow> string list \<Rightarrow> (string \<times> string) regeneration" where
  \<comment> \<open>\<open>raise HTTPException(status_code, detail)\<close>: nothing is committed.\<close>
  "http_failure code detail d prompts =
     \<lparr>result = Inl (HTTPException code detail), stored = d, committed = [],
      background_tasks = [], requested = prompts\<rparr>"

definition regenerate_image :: "world \<Rightarrow> nat \<Rightarrow> db \<Rightarrow> (string \<times> string) regeneration" where
  \<comment> \<open>The endpoint \<open>regenerate_image\<close>: the result is the new image and the new prompt,
      \<open>requested\<close> are the prompts sent to the image service.\<close>
  "regenerate_image w did d =
     (case find (\<lambda>g. digest.id g = did) (digests d) of
        None \<Rightarrow> http_failure 404 ''Digest not found'' d []
      | Some g \<Rightarrow>
          (case digest.image_prompt g of
             None \<Rightarrow> http_failure 400 ''No image prompt available'' d []
           | Some prompt \<Rightarrow>
               if prompt = [] then http_failure 400 ''No image prompt available'' d []
               else
                 (let new_artist = ARTISTS ! (choice w mod length ARTISTS);
                      new_prompt = re_sub_style new_artist prompt
                  in case generate_image w new_prompt of
                       None \<Rightarrow> http_failure 500 ''Image generation failed'' d [new_prompt]
                     | Some new_url \<Rightarrow>
                         if new_url = [] then
                           http_failure 500 ''Image generation failed'' d [new_prompt]
                         else
                           (let d1 = put_digest (g\<lparr>digest.image_url := Some new_url,
                                                   digest.image_prompt := Some new_prompt\<rparr>) d
                            in \<lparr>result = Inr (new_url, new_prompt), stored = d1,
                                committed = [d1], background_tasks = [],
                                requested = [new_prompt]\<rparr>))))"

section \<open>Example data\<close>

text \<open>
  A database with one completed and analysed episode inside the period of one digest, an
  engine, and three worlds around the synthesis: one whose language model raises, one whose
  model answers with text that is no JSON, and one whose model answers well while the image
  service gives no image.
\<close>

definition example_engine :: engine where
  \<comment> \<open>An engine that answers a query with the last row of the table first and refuses to
      bind whatever is neither a string nor \<open>None\<close> to a \<open>Text\<close> column.\<close>
  "example_engine =
     \<lparr>answer = rev,
      bind_text = (\<lambda>v. Inl ''Error binding parameter''),
      pending_rollback = (\<lambda>msg. ''Session rolled back. Original exception was: '' @ msg)\<rparr>"

definition example_episode :: episode where
  "example_episode =
     \<lparr>episode.id = 7, podcast_id = 1, episode.title = ''Pilot'', audio_url = ''http://x/a.mp3'',
      episode.published_at = Some 100, episode.status = ''completed'',
      episode.processing_step = None, transcript = Some ''hello world'',
      episode.summary = Some ''A greeting.''\<rparr>"

definition example_digest :: digest where
  "example_digest =
     \<lparr>digest.id = 1, digest.title = ''Weekly Digest'', period_start = 0, period_end = 1000,
      digest.podcast_ids = None, episode_count = 0, digest.summary = None,
      digest.common_themes = None, digest.trends = None, digest.predictions = None,
      digest.recommendations = None, digest.key_advice = None, digest.action_items = None,
      digest.image_url = None, digest.image_prompt = None, digest.status = ''processing'',
      digest.processing_step = None, processing_detail = None\<rparr>"

definition example_db :: db where
  "example_db =
     \<lparr>podcasts = [\<lparr>podcast.id = 1, podcast.title = ''Tech Talk''\<rparr>],
      episodes = [example_episode],
      episode_analyses =
        [\<lparr>episode_analysis.episode_id = 7, episode_analysis.overview = ''A greeting.'',
          episode_analysis.key_points = [''hello''], topics = [], episode_analysis.themes = [],
          episode_analysis.predictions = [], episode_analysis.recommendations = [],
          episode_analysis.advice = [], notable_quotes = []\<rparr>],
      digests = [example_digest],
      digest_episodes = []\<rparr>"

definition example_answer :: json where
  "example_answer =
     JObj [(''summary'', JStr ''A calm week.''),
           (''common_themes'', JArr [JStr ''greetings'']),
           (''image_description'', JStr ''a foggy harbor at dawn'')]"

definition raising_world :: world where
  "raising_world =
     \<lparr>complete = (\<lambda>eps a b. Inl ''overloaded''), loads = (\<lambda>s. JSONDecodeError), choice = 0,
      generate_image = (\<lambda>p. None), str_of = (\<lambda>v. [])\<rparr>"

definition rambling_world :: world where
  "rambling_world =
     \<lparr>complete = (\<lambda>eps a b. Inr ''Sorry, no digest today.''), loads = (\<lambda>s. JSONDecodeError),
      choice = 0, generate_image = (\<lambda>p. Some ''data:image/png;base64,AAAA''),
      str_of = (\<lambda>v. [])\<rparr>"

definition imageless_world :: world where
  "imageless_world =
     \<lparr>complete = (\<lambda>eps a b. Inr ''{...}''), loads = (\<lambda>s. Parsed example_answer), choice = 0,
      generate_image = (\<lambda>p. None), str_of = (\<lambda>v. [])\<rparr>"

definition painter :: "nat \<Rightarrow> world" where
  \<comment> \<open>A world whose image service always paints, \<open>k\<close> being the artist drawn.\<close>
  "painter k =
     \<lparr>complete = (\<lambda>eps a b. Inr ''{...}''), loads = (\<lambda>s. Parsed example_answer), choice = k,
      generate_image = (\<lambda>p. Some ''data:image/png;base64,BBBB''), str_of = (\<lambda>v. [])\<rparr>"

definition monet_db :: db where
  \<comment> \<open>The example database after a first image in the style of Monet.\<close>
  "monet_db =
     example_db\<lparr>digests :=
       [example_digest\<lparr>digest.status := ''completed'',
          digest.image_url := Some ''data:image/png;base64,AAAA'',
          digest.image_prompt :=
            Some ''Painting in the style of Monet. Bold brushwork. Scene: a foggy harbor.''\<rparr>]\<rparr>"

definition episode_of :: "nat \<Rightarrow> nat \<Rightarrow> int option \<Rightarrow> episode" where
  \<comment> \<open>A pending episode, as a feed refresh inserts it: its id, its podcast, its date.\<close>
  "episode_of i p t =
     \<lparr>episode.id = i, podcast_id = p, episode.title = ''Pilot'', audio_url = ''http://x/a.mp3'',
      episode.published_at = t, episode.status = ''pending'', episode.processing_step = None,
      transcript = None, episode.summary = None\<rparr>"

definition table_of :: "episode list \<Rightarrow> db" where
  \<comment> \<open>A database with these episodes and nothing else.\<close>
  "table_of es =
     \<lparr>podcasts = [], episodes = es, episode_analyses = [], digests = [], digest_episodes = []\<rparr>"

definition latest_request :: BatchAnalysisRequest where
  \<comment> \<open>The request of the most recent episode of every podcast.\<close>
  "latest_request =
     \<lparr>period = LATEST, start_date = None, end_date = None,
      BatchAnalysisRequest.podcast_ids = None\<rparr>"

definition paired_db :: db where
  \<comment> \<open>The example database with a second completed and analysed episode in the period.\<close>
  "paired_db =
     example_db\<lparr>episodes := [example_episode, example_episode\<lparr>episode.id := 8\<rparr>],
       episode_analyses := episode_analyses example_db @
         [\<lparr>episode_analysis.episode_id = 8, episode_analysis.overview = ''A farewell.'',
           episode_analysis.key_points = [], topics = [], episode_analysis.themes = [],
           episode_analysis.predictions = [], episode_analysis.recommendations = [],
           episode_analysis.advice = [], notable_quotes = []\<rparr>]\<rparr>"

definition listing_world :: world where
  \<comment> \<open>A world whose model answers with a summary that is a list, and whose image service
      gives no image.\<close>
  "listing_world =
     imageless_world\<lparr>loads := (\<lambda>s. Parsed (JObj [(''summary'', JArr [JStr ''A calm week.''])]))\<rparr>"

section \<open>Duration parsing\<close>


lemma py_digits_cases: "py_digits lim s = Inl ValueError \<or> (\<exists>n. py_digits lim s = Inr n)"
  unfolding py_digits_def Let_def by (rule if_split[THEN iffD2]) simp

lemma py_int_cases: "py_int lim s = Inl ValueError \<or> (\<exists>n. py_int lim s = Inr n)"
proof (cases "int_strip s")
  case Nil
  then show ?thesis by (simp add: py_int_def)
next
  case (Cons c cs)
  from py_digits_cases[of lim cs] py_digits_cases[of lim "c # cs"] Cons
  show ?thesis unfolding py_int_def by auto
qed

lemma map_int_cases: "map_int lim ps = Inl ValueError \<or> (\<exists>ns. map_int lim ps = Inr ns)"
proof (induction ps)
  case Nil
  show ?case by simp
next
  case (Cons p ps)
  from py_int_cases[of lim p] Cons show ?case by auto
qed

lemma map_int_Inr_all:
  "map_int lim ps = Inr ns \<Longrightarrow>
     list_all (\<lambda>p. case py_int lim p of Inr _ \<Rightarrow> True | Inl _ \<Rightarrow> False) ps"
  by (induction ps arbitrary: ns) (auto split: sum.splits)

lemma parse_duration_returns: "\<exists>r. parse_duration lim d = Inr r"
proof (cases d)
  case None
  then show ?thesis by (simp add: parse_duration_def)
next
  case (Some s)
  show ?thesis
  proof (cases "s = []")
    case True
    with Some show ?thesis by (simp add: parse_duration_def)
  next
    case ne: False
    from py_int_cases[of lim s] show ?thesis
    proof
      assume v: "py_int lim s = Inl ValueError"
      from map_int_cases[of lim "split_on CHR '':'' s"] show ?thesis
      proof
        assume "map_int lim (split_on CHR '':'' s) = Inl ValueError"
        with v ne Some show ?thesis by (simp add: parse_duration_def Let_def)
      next
        assume "\<exists>ns. map_int lim (split_on CHR '':'' s) = Inr ns"
        then obtain ns where "map_int lim (split_on CHR '':'' s) = Inr ns" ..
        with v ne Some show ?thesis
          by (simp add: parse_duration_def Let_def split: list.splits)
      qed
    next
      assume "\<exists>n. py_int lim s = Inr n"
      then obtain n where "py_int lim s = Inr n" ..
      with ne Some show ?thesis by (simp add: parse_duration_def)
    qed
  qed
qed

lemma parse_duration_invalid:
  assumes "py_int lim s = Inl ValueError"
    and "\<not> colon_ints lim 2 s" and "\<not> colon_ints lim 3 s"
  shows "parse_duration lim (Some s) = Inr None"
proof -
  let ?parts = "split_on CHR '':'' s"
  have no: "map_int lim ?parts = Inl ValueError" if l: "length ?parts = 2 \<or> length ?parts = 3"
  proof -
    from map_int_cases[of lim ?parts] show ?thesis
    proof
      assume "\<exists>ns. map_int lim ?parts = Inr ns"
      then obtain ns where "map_int lim ?parts = Inr ns" ..
      from map_int_Inr_all[OF this] l assms(2,3) show ?thesis
        by (auto simp: colon_ints_def)
    qed simp
  qed
  show ?thesis
    using assms(1) no
    by (simp add: parse_duration_def Let_def)
qed

lemma int_strip_digits:
  "int_strip ''125'' = ''125''" "int_strip ''02:05'' = ''02:05''" "int_strip ''01:02:05'' = ''01:02:05''"
  "int_strip ''01'' = ''01''" "int_strip ''02'' = ''02''" "int_strip ''05'' = ''05''"
  by (simp_all add: int_strip_def int_space_def)

lemma py_digits_examples:
  assumes "lim = 0 \<or> 640 \<le> lim"
  shows "py_digits lim ''125'' = Inr 125" "py_digits lim ''01'' = Inr 1"
    "py_digits lim ''02'' = Inr 2" "py_digits lim ''05'' = Inr 5"
    "py_digits lim ''02:05'' = Inl ValueError" "py_digits lim ''01:02:05'' = Inl ValueError"
  using assms by (auto simp: py_digits_def isdecimal_def digit_value_def)

lemma py_int_examples:
  assumes "lim = 0 \<or> 640 \<le> lim"
  shows "py_int lim ''125'' = Inr 125" "py_int lim ''01'' = Inr 1"
    "py_int lim ''02'' = Inr 2" "py_int lim ''05'' = Inr 5"
    "py_int lim ''02:05'' = Inl ValueError" "py_int lim ''01:02:05'' = Inl ValueError"
  by (simp_all add: py_int_def int_strip_digits py_digits_examples[OF assms])

lemma parse_duration_examples:
  assumes "lim = 0 \<or> 640 \<le> lim"
  shows "parse_duration lim (Some ''125'') = Inr (Some 125)"
    and "parse_duration lim (Some ''02:05'') = Inr (Some 125)"
    and "parse_duration lim (Some ''01:02:05'') = Inr (Some 3725)"
  by (simp_all add: parse_duration_def py_int_examples[OF assms])

text \<open>
  C9. \<open>parse_duration\<close> maps "125" to 125, "02:05" to 125 and "01:02:05" to 3725 seconds; a
  string that \<open>int()\<close> rejects and that is not two or three colon-separated integers gives
  \<open>None\<close>; and no input makes it raise.
\<close>

theorem parse_duration_spec:
  assumes "lim = 0 \<or> 640 \<le> lim"
  shows "parse_duration lim (Some ''125'') = Inr (Some 125) \<and>
         parse_duration lim (Some ''02:05'') = Inr (Some 125) \<and>
         parse_duration lim (Some ''01:02:05'') = Inr (Some 3725) \<and>
         (\<forall>s. py_int lim s = Inl ValueError \<and> \<not> colon_ints lim 2 s \<and> \<not> colon_ints lim 3 s
              \<longrightarrow> parse_duration lim (Some s) = Inr None) \<and>
         (\<forall>d. \<exists>r. parse_duration lim d = Inr r)"
  using parse_duration_examples[OF assms] parse_duration_invalid parse_duration_returns
  by blast

theorem parse_duration_spec_witness:
  "((4300::nat) = 0 \<or> 640 \<le> (4300::nat)) \<and>
   parse_duration 4300 (Some ''01:02:05'') = Inr (Some 3725) \<and>
   py_int 4300 ''1h30'' = Inl ValueError \<and> \<not> colon_ints 4300 2 ''1h30'' \<and>
   \<not> colon_ints 4300 3 ''1h30'' \<and>
   parse_duration 4300 (Some ''1h30'') = Inr None"
proof -
  have l: "(4300::nat) = 0 \<or> 640 \<le> (4300::nat)" by simp
  have s: "int_strip ''1h30'' = ''1h30''" by (simp add: int_strip_def int_space_def)
  have d: "py_digits 4300 ''1h30'' = Inl ValueError"
    by (simp add: py_digits_def isdecimal_def)
  have i: "py_int 4300 ''1h30'' = Inl ValueError" by (simp add: py_int_def s d)
  have c2: "\<not> colon_ints 4300 2 ''1h30''" by (simp add: colon_ints_def)
  have c3: "\<not> colon_ints 4300 3 ''1h30''" by (simp add: colon_ints_def)
  from parse_duration_spec[OF l] i c2 c3 l show ?thesis by blast
qed

section \<open>Transcript chunking\<close>

lemma words_acc_no_space:
  "\<not> list_ex isspace w \<Longrightarrow> words_acc cur w = (if cur @ w = [] then [] else [cur @ w])"
  by (induction w arbitrary: cur) auto

lemma words_acc_word_space:
  "\<not> list_ex isspace w \<Longrightarrow> isspace c \<Longrightarrow>
   words_acc cur (w @ c # rest) = (if cur @ w = [] then words_acc [] rest else (cur @ w) # words_acc [] rest)"
  by (induction w arbitrary: cur) auto

lemma words_acc_is_word:
  "cur = [] \<or> is_word cur \<Longrightarrow> list_all is_word (words_acc cur s)"
  by (induction s arbitrary: cur) (auto simp: is_word_def)

lemma split_ws_is_word: "list_all is_word (split_ws t)"
  by (simp add: split_ws_def words_acc_is_word)

lemma isspace_sp: "isspace CHR '' ''"
  by (simp add: isspace_def)

lemma split_ws_join_sp: "list_all is_word ws \<Longrightarrow> split_ws (join_sp ws) = ws"
proof (induction ws rule: join_sp.induct)
  case 1
  show ?case by (simp add: split_ws_def)
next
  case (2 w)
  then show ?case by (simp add: split_ws_def words_acc_no_space is_word_def)
next
  case (3 w v ws)
  from 3 have w: "\<not> list_ex isspace w" "w \<noteq> []" by (simp_all add: is_word_def)
  from 3 have ih: "words_acc [] (join_sp (v # ws)) = v # ws" by (simp add: split_ws_def)
  have "split_ws (join_sp (w # v # ws)) = words_acc [] (w @ CHR '' '' # join_sp (v # ws))"
    by (simp add: split_ws_def)
  also have "\<dots> = w # words_acc [] (join_sp (v # ws))"
    using words_acc_word_space[OF w(1) isspace_sp, of "[]" "join_sp (v # ws)"] w(2) by simp
  finally show ?case using ih by simp
qed


lemma chunk_loop_words:
  "list_all is_word cur \<Longrightarrow> list_all is_word ws \<Longrightarrow>
   chunk_loop n ws chunks cur len = (chunks', cur', len') \<Longrightarrow>
   concat (map split_ws chunks') @ cur' = concat (map split_ws chunks) @ cur @ ws \<and>
   list_all is_word cur'"
proof (induction ws arbitrary: chunks cur len)
  case Nil
  then show ?case by simp
next
  case (Cons w ws)
  show ?case
  proof (cases "len + (length w + 1) > n")
    case True
    with Cons.prems(3)
    have "chunk_loop n ws (chunks @ [join_sp cur]) [w] (length w + 1) = (chunks', cur', len')"
      by (simp add: Let_def)
    from Cons.IH[OF _ _ this] Cons.prems(1,2) show ?thesis
      by (simp add: split_ws_join_sp)
  next
    case False
    with Cons.prems(3)
    have "chunk_loop n ws chunks (cur @ [w]) (len + (length w + 1)) = (chunks', cur', len')"
      by (simp add: Let_def)
    from Cons.IH[OF _ _ this] Cons.prems(1,2) show ?thesis
      by simp
  qed
qed

lemma length_join_sp_snoc:
  "length (join_sp (cur @ [w])) =
     (if cur = [] then length w else length (join_sp cur) + 1 + length w)"
  by (induction cur rule: join_sp.induct) simp_all

lemma chunk_loop_lengths:
  "set ws \<subseteq> W \<Longrightarrow> list_all (chunk_ok n W) chunks \<Longrightarrow> chunk_ok n W (join_sp cur) \<Longrightarrow>
   cur = [] \<or> length (join_sp cur) + 1 \<le> len \<Longrightarrow>
   chunk_loop n ws chunks cur len = (chunks', cur', len') \<Longrightarrow>
   list_all (chunk_ok n W) chunks' \<and> chunk_ok n W (join_sp cur')"
proof (induction ws arbitrary: chunks cur len)
  case Nil
  then show ?case by simp
next
  case (Cons w ws)
  show ?case
  proof (cases "len + (length w + 1) > n")
    case True
    with Cons.prems(5)
    have run: "chunk_loop n ws (chunks @ [join_sp cur]) [w] (length w + 1) = (chunks', cur', len')"
      by (simp add: Let_def)
    have a: "list_all (chunk_ok n W) (chunks @ [join_sp cur])"
      using Cons.prems(2,3) by simp
    have b: "chunk_ok n W (join_sp [w])"
      using Cons.prems(1) by (simp add: chunk_ok_def)
    have c: "[w] = [] \<or> length (join_sp [w]) + 1 \<le> length w + 1" by simp
    from Cons.prems(1) have s: "set ws \<subseteq> W" by simp
    from Cons.IH[OF s a b c run] show ?thesis .
  next
    case False
    with Cons.prems(5)
    have run: "chunk_loop n ws chunks (cur @ [w]) (len + (length w + 1)) = (chunks', cur', len')"
      by (simp add: Let_def)
    have l: "length (join_sp (cur @ [w])) + 1 \<le> len + (length w + 1)"
      using Cons.prems(4) by (auto simp: length_join_sp_snoc)
    with False have b: "chunk_ok n W (join_sp (cur @ [w]))"
      by (simp add: chunk_ok_def)
    from l have c: "cur @ [w] = [] \<or> length (join_sp (cur @ [w])) + 1 \<le> len + (length w + 1)"
      by simp
    from Cons.prems(1) have s: "set ws \<subseteq> W" by simp
    from Cons.IH[OF s Cons.prems(2) b c run] show ?thesis .
  qed
qed

lemma chunk_transcript_short: "length t \<le> n \<Longrightarrow> chunk_transcript n t = [t]"
  by (simp add: chunk_transcript_def)

lemma chunk_transcript_keeps_words: "concat (map split_ws (chunk_transcript n t)) = split_ws t"
proof (cases "length t \<le> n")
  case True
  then show ?thesis by (simp add: chunk_transcript_def)
next
  case False
  obtain chunks cur len where run: "chunk_loop n (split_ws t) [] [] 0 = (chunks, cur, len)"
    by (cases "chunk_loop n (split_ws t) [] [] 0") auto
  from chunk_loop_words[OF _ split_ws_is_word run]
  have w: "concat (map split_ws chunks) @ cur = split_ws t" "list_all is_word cur"
    by simp_all
  show ?thesis
    using False run w by (auto simp: chunk_transcript_def split_ws_join_sp)
qed

lemma chunk_transcript_lengths:
  "list_all (chunk_ok n (set (split_ws t))) (chunk_transcript n t)"
proof (cases "length t \<le> n")
  case True
  then show ?thesis by (simp add: chunk_transcript_def chunk_ok_def)
next
  case False
  obtain chunks cur len where run: "chunk_loop n (split_ws t) [] [] 0 = (chunks, cur, len)"
    by (cases "chunk_loop n (split_ws t) [] [] 0") auto
  have "list_all (chunk_ok n (set (split_ws t))) chunks \<and> chunk_ok n (set (split_ws t)) (join_sp cur)"
    by (rule chunk_loop_lengths[OF _ _ _ _ run]) (simp_all add: chunk_ok_def)
  then show ?thesis
    using False run by (simp add: chunk_transcript_def)
qed

text \<open>
  C4 (amended). The chunks are made of whole words: read back word by word, they give the
  words of the transcript in order. A transcript at or below the threshold is its own single
  chunk. A chunk is longer than the threshold only when it is one word of the transcript
  that is itself longer than the threshold.
\<close>

theorem chunk_transcript_word_boundaries:
  "concat (map split_ws (chunk_transcript n t)) = split_ws t \<and>
   (length t \<le> n \<longrightarrow> chunk_transcript n t = [t]) \<and>
   (\<forall>c \<in> set (chunk_transcript n t). n < length c \<longrightarrow> c \<in> set (split_ws t)) \<and>
   ((\<forall>w \<in> set (split_ws t). length w \<le> n) \<longrightarrow> (\<forall>c \<in> set (chunk_transcript n t). length c \<le> n))"
proof -
  have a: "\<forall>c \<in> set (chunk_transcript n t). n < length c \<longrightarrow> c \<in> set (split_ws t)"
    using chunk_transcript_lengths[of n t] by (auto simp: list_all_iff chunk_ok_def)
  then have b: "(\<forall>w \<in> set (split_ws t). length w \<le> n) \<longrightarrow>
      (\<forall>c \<in> set (chunk_transcript n t). length c \<le> n)"
    by (meson not_le)
  show ?thesis
    using a b chunk_transcript_keeps_words[of n t] chunk_transcript_short[of t n] by blast
qed

theorem chunk_transcript_word_boundaries_witness:
  "chunk_transcript 5 ''ab cd ef'' = [''ab'', ''cd'', ''ef''] \<and>
   list_all (\<lambda>w. length w \<le> 5) (split_ws ''ab cd ef'') \<and>
   list_all (\<lambda>c. length c \<le> 5) (chunk_transcript 5 ''ab cd ef'') \<and>
   length ''ab'' \<le> (5::nat) \<and> chunk_transcript 5 ''ab'' = [''ab''] \<and>
   ''abc'' \<in> set (chunk_transcript 2 ''abc d'') \<and> (2::nat) < length ''abc'' \<and>
   ''abc'' \<in> set (split_ws ''abc d'')"
proof -
  have sp: "isspace CHR '' ''" "\<not> isspace CHR ''a''" "\<not> isspace CHR ''b''"
    "\<not> isspace CHR ''c''" "\<not> isspace CHR ''d''" "\<not> isspace CHR ''e''" "\<not> isspace CHR ''f''"
    by (simp_all add: isspace_def)
  have w1: "split_ws ''ab cd ef'' = [''ab'', ''cd'', ''ef'']"
    by (simp add: split_ws_def sp)
  have w2: "split_ws ''abc d'' = [''abc'', ''d'']"
    by (simp add: split_ws_def sp)
  have c1: "chunk_transcript 5 ''ab cd ef'' = [''ab'', ''cd'', ''ef'']"
    by (simp add: chunk_transcript_def w1 Let_def)
  have c2: "chunk_transcript 2 ''abc d'' = ['''', ''abc'', ''d'']"
    by (simp add: chunk_transcript_def w2 Let_def)
  have h: "\<forall>w \<in> set (split_ws ''ab cd ef''). length w \<le> 5"
    by (simp add: w1)
  have m: "''abc'' \<in> set (chunk_transcript 2 ''abc d'')" "(2::nat) < length ''abc''"
    by (simp_all add: c2)
  from chunk_transcript_word_boundaries[of 5 "''ab cd ef''"] h
  have a: "\<forall>c \<in> set (chunk_transcript 5 ''ab cd ef''). length c \<le> 5" by blast
  from chunk_transcript_word_boundaries[of 5 "''ab''"]
  have b: "chunk_transcript 5 ''ab'' = [''ab'']" by simp
  from chunk_transcript_word_boundaries[of 2 "''abc d''"] m
  have c: "''abc'' \<in> set (split_ws ''abc d'')" by blast
  from c1 h a b c m show ?thesis by (simp add: list_all_iff)
qed

lemma split_ws_one_word: "is_word w \<Longrightarrow> split_ws w = [w]"
  by (simp add: split_ws_def words_acc_no_space is_word_def)

lemma chunk_transcript_long_word:
  "is_word w \<Longrightarrow> n < length w \<Longrightarrow> chunk_transcript n w = [[], w]"
  by (simp add: chunk_transcript_def split_ws_one_word Let_def)

theorem chunk_transcript_oversized_counterexample:
  "chunk_transcript CHUNK_SIZE (replicate 80001 CHR ''a'') = [[], replicate 80001 CHR ''a''] \<and>
   CHUNK_SIZE < length (replicate 80001 CHR ''a'')"
proof -
  have w: "is_word (replicate 80001 CHR ''a'')"
    by (simp add: is_word_def list_ex_iff isspace_def)
  have l: "CHUNK_SIZE < length (replicate 80001 CHR ''a'')"
    by (simp add: CHUNK_SIZE_def)
  from chunk_transcript_long_word[OF w l] l show ?thesis by simp
qed

section \<open>The episode pipeline\<close>









lemma inv_put_episode:
  "step_only_while_processing d \<Longrightarrow>
   (episode.processing_step e \<noteq> None \<longrightarrow> episode.status e = ''processing'') \<Longrightarrow>
   step_only_while_processing (put_episode e d)"
  by (auto simp: step_only_while_processing_def put_episode_def list_all_iff)

lemma inv_store_analysis:
  "step_only_while_processing (store_analysis i r d) = step_only_while_processing d"
  by (simp add: step_only_while_processing_def store_analysis_def Let_def split: option.splits)

lemma inv_commit:
  "step_only_while_processing (store s) \<and> list_all step_only_while_processing (commits s) \<Longrightarrow>
   step_only_while_processing d \<Longrightarrow>
   step_only_while_processing (store (commit d s)) \<and>
   list_all step_only_while_processing (commits (commit d s))"
  by (simp add: commit_def)

lemma inv_episode_failed:
  assumes "step_only_while_processing (store s) \<and> list_all step_only_while_processing (commits s)"
  shows "step_only_while_processing (store (session (episode_failed e msg p s))) \<and>
         list_all step_only_while_processing (commits (session (episode_failed e msg p s)))"
  unfolding episode_failed_def Let_def episode_run.simps
  by (rule inv_commit[OF assms]) (simp add: inv_put_episode assms)

lemma inv_episode_analyzing:
  assumes s: "step_only_while_processing (store s) \<and> list_all step_only_while_processing (commits s)"
    and e: "episode.status e = ''processing''"
  shows "step_only_while_processing (store (session (episode_analyzing svc e p t s))) \<and>
         list_all step_only_while_processing (commits (session (episode_analyzing svc e p t s)))"
proof -
  let ?e1 = "e\<lparr>episode.processing_step := Some ''analyzing''\<rparr>"
  let ?s1 = "commit (put_episode ?e1 (store s)) s"
  have s1: "step_only_while_processing (store ?s1) \<and> list_all step_only_while_processing (commits ?s1)"
    by (rule inv_commit[OF s]) (simp add: inv_put_episode s e)
  show ?thesis
  proof (cases "analyze svc t")
    case (Inl msg)
    then show ?thesis
      using inv_episode_failed[OF s1] by (simp add: episode_analyzing_def Let_def)
  next
    case (Inr r)
    have "step_only_while_processing (store_analysis (episode.id e) r (store ?s1))"
      using s1 by (simp add: inv_store_analysis)
    then have "step_only_while_processing
        (put_episode (?e1\<lparr>episode.summary := Some (raw_summary r), episode.status := ''completed'',
            episode.processing_step := None\<rparr>) (store_analysis (episode.id e) r (store ?s1)))"
      by (rule inv_put_episode) simp
    from inv_commit[OF s1 this] Inr show ?thesis
      by (simp add: episode_analyzing_def Let_def)
  qed
qed

lemma inv_episode_transcribing:
  assumes s: "step_only_while_processing (store s) \<and> list_all step_only_while_processing (commits s)"
    and e: "episode.status e = ''processing''"
  shows "step_only_while_processing (store (session (episode_transcribing svc e p s))) \<and>
         list_all step_only_while_processing (commits (session (episode_transcribing svc e p s)))"
proof -
  let ?e1 = "e\<lparr>episode.processing_step := Some ''transcribing''\<rparr>"
  let ?s1 = "commit (put_episode ?e1 (store s)) s"
  have s1: "step_only_while_processing (store ?s1) \<and> list_all step_only_while_processing (commits ?s1)"
    by (rule inv_commit[OF s]) (simp add: inv_put_episode s e)
  show ?thesis
  proof (cases "transcribe svc p")
    case (Inl msg)
    then show ?thesis
      using inv_episode_failed[OF s1] by (simp add: episode_transcribing_def Let_def)
  next
    case (Inr tx)
    let ?e2 = "?e1\<lparr>episode.transcript := Some tx\<rparr>"
    let ?s2 = "commit (put_episode ?e2 (store ?s1)) ?s1"
    have s2: "step_only_while_processing (store ?s2) \<and> list_all step_only_while_processing (commits ?s2)"
      by (rule inv_commit[OF s1]) (simp add: inv_put_episode s1 e)
    have "episode.status ?e2 = ''processing''" using e by simp
    from inv_episode_analyzing[OF s2 this] Inr show ?thesis
      by (simp add: episode_transcribing_def Let_def)
  qed
qed

lemma inv_episode_downloading:
  assumes s: "step_only_while_processing (store s) \<and> list_all step_only_while_processing (commits s)"
    and e: "episode.status e = ''processing''"
  shows "step_only_while_processing (store (session (episode_downloading svc e s))) \<and>
         list_all step_only_while_processing (commits (session (episode_downloading svc e s)))"
proof -
  let ?e1 = "e\<lparr>episode.processing_step := Some ''downloading''\<rparr>"
  let ?s1 = "commit (put_episode ?e1 (store s)) s"
  have s1: "step_only_while_processing (store ?s1) \<and> list_all step_only_while_processing (commits ?s1)"
    by (rule inv_commit[OF s]) (simp add: inv_put_episode s e)
  have e1: "episode.status ?e1 = ''processing''" using e by simp
  show ?thesis
  proof (cases "download_audio svc (audio_url ?e1)")
    case (Inl msg)
    then show ?thesis
      using inv_episode_failed[OF s1] by (simp add: episode_downloading_def Let_def)
  next
    case (Inr path)
    from inv_episode_transcribing[OF s1 e1] Inr show ?thesis
      by (simp add: episode_downloading_def Let_def)
  qed
qed

lemma inv_process_episode:
  assumes "step_only_while_processing d"
  shows "list_all step_only_while_processing (commits (session (process_episode svc i d)))"
proof (cases "find (\<lambda>e. episode.id e = i) (episodes d)")
  case None
  then show ?thesis by (simp add: process_episode_def)
next
  case (Some e)
  let ?e1 = "e\<lparr>episode.status := ''processing'', episode.processing_step := Some ''starting''\<rparr>"
  let ?s0 = "\<lparr>store = d, commits = []\<rparr>"
  let ?s1 = "commit (put_episode ?e1 d) ?s0"
  have s0: "step_only_while_processing (store ?s0) \<and> list_all step_only_while_processing (commits ?s0)"
    using assms by simp
  have s1: "step_only_while_processing (store ?s1) \<and> list_all step_only_while_processing (commits ?s1)"
    by (rule inv_commit[OF s0]) (simp add: inv_put_episode assms)
  have e1: "episode.status ?e1 = ''processing''" by simp
  from inv_episode_downloading[OF s1 e1] Some show ?thesis
    by (simp add: process_episode_def Let_def)
qed

lemma inv_analyze_episode:
  assumes "step_only_while_processing d"
  shows "list_all step_only_while_processing (committed (analyze_episode p i d))"
proof (cases "find (\<lambda>e. episode.id e = i \<and> episode.podcast_id e = p) (episodes d)")
  case None
  then show ?thesis by (simp add: analyze_episode_def)
next
  case (Some e)
  have m: "e \<in> set (episodes d)"
    using Some by (auto simp: find_Some_iff)
  then have "episode.processing_step e \<noteq> None \<longrightarrow> episode.status e = ''processing''"
    using assms by (auto simp: step_only_while_processing_def list_all_iff)
  then have "step_only_while_processing (put_episode (e\<lparr>episode.status := ''processing''\<rparr>) d)"
    using assms by (intro inv_put_episode) simp_all
  with Some show ?thesis by (simp add: analyze_episode_def Let_def)
qed

lemma inv_batch_analyze:
  assumes "step_only_while_processing d"
  shows "list_all step_only_while_processing (committed (batch_analyze eng request now d))"
  using assms
  by (auto simp: batch_analyze_def Let_def step_only_while_processing_def list_all_iff)

lemma inv_reset_stuck_episodes:
  assumes "step_only_while_processing d"
  shows "list_all step_only_while_processing (committed (reset_stuck_episodes d))"
  using assms
  by (auto simp: reset_stuck_episodes_def Let_def step_only_while_processing_def list_all_iff)


lemma commits_episode_failed:
  "\<exists>rest. commits (session (episode_failed e msg p s)) = commits s @ rest"
  by (simp add: episode_failed_def commit_def Let_def)

lemma commits_episode_analyzing:
  "\<exists>rest. commits (session (episode_analyzing svc e p t s)) = commits s @ rest"
proof (cases "analyze svc t")
  case (Inl msg)
  then show ?thesis
    using commits_episode_failed[of "e\<lparr>episode.processing_step := Some ''analyzing''\<rparr>" msg "Some p"
        "commit (put_episode (e\<lparr>episode.processing_step := Some ''analyzing''\<rparr>) (store s)) s"]
    by (auto simp: episode_analyzing_def Let_def commit_def)
next
  case (Inr r)
  then show ?thesis by (simp add: episode_analyzing_def Let_def commit_def)
qed

lemma commits_episode_transcribing:
  "\<exists>rest. commits (session (episode_transcribing svc e p s)) = commits s @ rest"
proof (cases "transcribe svc p")
  case (Inl msg)
  then show ?thesis
    using commits_episode_failed[of "e\<lparr>episode.processing_step := Some ''transcribing''\<rparr>" msg "Some p"
        "commit (put_episode (e\<lparr>episode.processing_step := Some ''transcribing''\<rparr>) (store s)) s"]
    by (auto simp: episode_transcribing_def Let_def commit_def)
next
  case (Inr tx)
  let ?e1 = "e\<lparr>episode.processing_step := Some ''transcribing''\<rparr>"
  let ?s1 = "commit (put_episode ?e1 (store s)) s"
  let ?e2 = "?e1\<lparr>episode.transcript := Some tx\<rparr>"
  from commits_episode_analyzing[of svc ?e2 p tx "commit (put_episode ?e2 (store ?s1)) ?s1"] Inr
  show ?thesis
    by (auto simp: episode_transcribing_def Let_def commit_def)
qed

lemma commits_episode_downloading:
  "\<exists>rest. commits (session (episode_downloading svc e s)) = commits s @ rest"
proof (cases "download_audio svc (audio_url e)")
  case (Inl msg)
  then show ?thesis
    using commits_episode_failed[of "e\<lparr>episode.processing_step := Some ''downloading''\<rparr>" msg None
        "commit (put_episode (e\<lparr>episode.processing_step := Some ''downloading''\<rparr>) (store s)) s"]
    by (auto simp: episode_downloading_def Let_def commit_def)
next
  case (Inr path)
  let ?e1 = "e\<lparr>episode.processing_step := Some ''downloading''\<rparr>"
  from commits_episode_transcribing[of svc ?e1 path "commit (put_episode ?e1 (store s)) s"] Inr
  show ?thesis
    by (auto simp: episode_downloading_def Let_def commit_def)
qed

lemma process_episode_first_commit:
  assumes "find (\<lambda>x. episode.id x = i) (episodes d) = Some e"
  shows "\<exists>rest. commits (session (process_episode svc i d)) =
           put_episode (e\<lparr>episode.status := ''processing'',
                          episode.processing_step := Some ''starting''\<rparr>) d # rest"
proof -
  let ?e1 = "e\<lparr>episode.status := ''processing'', episode.processing_step := Some ''starting''\<rparr>"
  from commits_episode_downloading[of svc ?e1 "commit (put_episode ?e1 d) \<lparr>store = d, commits = []\<rparr>"]
  show ?thesis
    using assms by (auto simp: process_episode_def Let_def commit_def)
qed

lemma step_null_unless_processing:
  assumes "step_only_while_processing d" and "e \<in> set (episodes d)"
    and "episode.status e \<noteq> ''processing''"
  shows "episode.processing_step e = None"
  using assms by (auto simp: step_only_while_processing_def list_all_iff)

lemma analyze_episode_admission:
  assumes "step_only_while_processing d"
    and "find (\<lambda>x. episode.id x = i \<and> episode.podcast_id x = p) (episodes d) = Some e"
    and "episode.status e \<noteq> ''processing''"
    and "\<not> (episode.status e = ''completed'' \<and> episode.summary e \<noteq> None
            \<and> episode.summary e \<noteq> Some [])"
  shows "committed (analyze_episode p i d) =
           [put_episode (e\<lparr>episode.status := ''processing''\<rparr>) d] \<and>
         background_tasks (analyze_episode p i d) = [i] \<and>
         episode.processing_step (e\<lparr>episode.status := ''processing''\<rparr>) = None"
proof -
  have "e \<in> set (episodes d)"
    using assms(2) by (auto simp: find_Some_iff)
  from step_null_unless_processing[OF assms(1) this assms(3)]
  have "episode.processing_step e = None" .
  then show ?thesis
    using assms(2-4) by (auto simp: analyze_episode_def Let_def)
qed

lemma set_answer:
  assumes "\<And>rows. mset (answer eng rows) = mset rows"
  shows "set (answer eng rows) = set rows"
  using assms[of rows] by (rule mset_eq_setD)

lemma select_episodes_subset:
  assumes "\<And>rows. mset (answer eng rows) = mset rows"
  shows "set (select_episodes eng request now d) \<subseteq> set (episodes d)"
proof -
  have "set (podcast_filter ids q) \<subseteq> set q" for ids q
    by (auto simp: podcast_filter_def split: option.splits)
  moreover have "set (latest_join t q) \<subseteq> set q" for t q
    by (auto simp: latest_join_def)
  moreover have "set (date_filter a b q) \<subseteq> set q" for a b q
    by (auto simp: date_filter_def Let_def split: option.splits)
  ultimately have "set (if period request = LATEST
        then latest_join (episodes d)
               (podcast_filter (BatchAnalysisRequest.podcast_ids request) (episodes d))
        else date_filter
               (fst (get_period_dates (period request) (start_date request) (end_date request) now))
               (snd (get_period_dates (period request) (start_date request) (end_date request) now))
               (podcast_filter (BatchAnalysisRequest.podcast_ids request) (episodes d)))
      \<subseteq> set (episodes d)"
    by (cases "period request = LATEST") (simp_all, (blast dest: subsetD)+)
  then show ?thesis
    unfolding select_episodes_def Let_def set_answer[OF assms] .
qed

lemma batch_analyze_admission:
  assumes "step_only_while_processing d"
    and "\<And>rows. mset (answer eng rows) = mset rows"
    and "e \<in> set (select_episodes eng request now d)"
    and "episode.status e = ''pending''"
  shows "e\<lparr>episode.status := ''processing''\<rparr>
           \<in> set (episodes (stored (batch_analyze eng request now d))) \<and>
         episode.id e \<in> set (background_tasks (batch_analyze eng request now d)) \<and>
         episode.processing_step (e\<lparr>episode.status := ''processing''\<rparr>) = None"
proof -
  let ?ts = "map episode.id (filter (\<lambda>e. episode.status e = ''pending'')
               (select_episodes eng request now d))"
  let ?f = "\<lambda>x. if episode.id x \<in> set ?ts \<and> episode.status x = ''pending''
                 then x\<lparr>episode.status := ''processing''\<rparr> else x"
  have m: "e \<in> set (episodes d)"
    using select_episodes_subset[OF assms(2)] assms(3) by blast
  have "episode.status e \<noteq> ''processing''"
    unfolding assms(4) by simp
  from step_null_unless_processing[OF assms(1) m this]
  have n: "episode.processing_step e = None" .
  have bt: "background_tasks (batch_analyze eng request now d) = ?ts"
    by (simp add: batch_analyze_def Let_def)
  have st: "episodes (stored (batch_analyze eng request now d)) = map ?f (episodes d)"
    by (simp add: batch_analyze_def Let_def)
  have "e \<in> set (filter (\<lambda>e. episode.status e = ''pending'')
               (select_episodes eng request now d))"
    using assms(3,4) by simp
  then have t: "episode.id e \<in> set ?ts"
    unfolding set_map by (rule imageI)
  have fe: "?f e = e\<lparr>episode.status := ''processing''\<rparr>"
    using t assms(4) by (simp only: if_True simp_thms)
  have "?f e \<in> set (map ?f (episodes d))"
    unfolding set_map using m by (rule imageI)
  then have "e\<lparr>episode.status := ''processing''\<rparr>
      \<in> set (episodes (stored (batch_analyze eng request now d)))"
    unfolding st fe .
  moreover have "episode.id e \<in> set (background_tasks (batch_analyze eng request now d))"
    unfolding bt by (rule t)
  moreover have "episode.processing_step (e\<lparr>episode.status := ''processing''\<rparr>) = None"
    using n by simp
  ultimately show ?thesis by (intro conjI)
qed

text \<open>
  C1 (amended). After every commit of \<open>process_episode\<close>, of the two endpoints that start an
  analysis and of the reset of stuck episodes, an episode with a non-null processing step
  has the status processing, provided this held before; so every commit that takes an
  episode out of the status processing leaves it without a step. \<open>process_episode\<close> sets
  the status processing and the step "starting" in its first commit. The two endpoints
  set the status processing and leave the step null: \<open>analyze_episode\<close> for an episode that
  it starts, in its only commit, and \<open>batch_analyze\<close> for every pending episode that it
  selects, in its only commit; these episodes are handed to the background task.
\<close>

theorem processing_step_only_while_processing:
  assumes "step_only_while_processing d"
    and "\<And>rows. mset (answer eng rows) = mset rows"
  shows "list_all step_only_while_processing (commits (session (process_episode svc i d))) \<and>
         list_all step_only_while_processing (committed (analyze_episode p i d)) \<and>
         list_all step_only_while_processing (committed (batch_analyze eng request now d)) \<and>
         list_all step_only_while_processing (committed (reset_stuck_episodes d)) \<and>
         (\<forall>e. find (\<lambda>x. episode.id x = i) (episodes d) = Some e \<longrightarrow>
            (\<exists>rest. commits (session (process_episode svc i d)) =
               put_episode (e\<lparr>episode.status := ''processing'',
                              episode.processing_step := Some ''starting''\<rparr>) d # rest)) \<and>
         (\<forall>e. find (\<lambda>x. episode.id x = i \<and> episode.podcast_id x = p) (episodes d) = Some e \<and>
              episode.status e \<noteq> ''processing'' \<and>
              \<not> (episode.status e = ''completed'' \<and> episode.summary e \<noteq> None
                   \<and> episode.summary e \<noteq> Some []) \<longrightarrow>
            committed (analyze_episode p i d) =
              [put_episode (e\<lparr>episode.status := ''processing''\<rparr>) d] \<and>
            background_tasks (analyze_episode p i d) = [i] \<and>
            episode.processing_step (e\<lparr>episode.status := ''processing''\<rparr>) = None) \<and>
         committed (batch_analyze eng request now d) =
           [stored (batch_analyze eng request now d)] \<and>
         (\<forall>e \<in> set (select_episodes eng request now d). episode.status e = ''pending'' \<longrightarrow>
            e\<lparr>episode.status := ''processing''\<rparr>
              \<in> set (episodes (stored (batch_analyze eng request now d))) \<and>
            episode.id e \<in> set (background_tasks (batch_analyze eng request now d)) \<and>
            episode.processing_step (e\<lparr>episode.status := ''processing''\<rparr>) = None)"
proof -
  have c: "committed (batch_analyze eng request now d) =
      [stored (batch_analyze eng request now d)]"
    by (simp add: batch_analyze_def Let_def)
  from inv_process_episode[OF assms(1)] inv_analyze_episode[OF assms(1)]
    inv_batch_analyze[OF assms(1)] inv_reset_stuck_episodes[OF assms(1)]
    process_episode_first_commit analyze_episode_admission[OF assms(1)]
    batch_analyze_admission[OF assms] c
  show ?thesis by blast
qed

theorem processing_step_only_while_processing_witness:
  "step_only_while_processing
     (table_of [(episode_of 7 1 None)\<lparr>episode.status := ''failed''\<rparr>, episode_of 8 1 (Some 5)]) \<and>
   committed (reset_stuck_episodes
     (table_of [(episode_of 7 1 None)\<lparr>episode.status := ''failed''\<rparr>, episode_of 8 1 (Some 5)])) =
     [table_of [episode_of 7 1 None, episode_of 8 1 (Some 5)]] \<and>
   list_all step_only_while_processing (committed (reset_stuck_episodes
     (table_of [(episode_of 7 1 None)\<lparr>episode.status := ''failed''\<rparr>, episode_of 8 1 (Some 5)]))) \<and>
   (\<exists>rest. commits (session (process_episode
        \<lparr>download_audio = (\<lambda>u. Inl ''404''), transcribe = (\<lambda>p. Inr ''hello''),
         analyze = (\<lambda>t. Inl ''rate limited'')\<rparr> 7
        (table_of [(episode_of 7 1 None)\<lparr>episode.status := ''failed''\<rparr>,
                   episode_of 8 1 (Some 5)]))) =
      table_of [(episode_of 7 1 None)\<lparr>episode.status := ''processing'',
                  episode.processing_step := Some ''starting''\<rparr>, episode_of 8 1 (Some 5)] # rest) \<and>
   committed (analyze_episode 1 7
     (table_of [(episode_of 7 1 None)\<lparr>episode.status := ''failed''\<rparr>, episode_of 8 1 (Some 5)])) =
     [table_of [(episode_of 7 1 None)\<lparr>episode.status := ''processing''\<rparr>,
                episode_of 8 1 (Some 5)]] \<and>
   select_episodes example_engine latest_request 0
     (table_of [(episode_of 7 1 None)\<lparr>episode.status := ''failed''\<rparr>, episode_of 8 1 (Some 5)]) =
     [episode_of 8 1 (Some 5)] \<and>
   (episode_of 8 1 (Some 5))\<lparr>episode.status := ''processing''\<rparr>
     \<in> set (episodes (stored (batch_analyze example_engine latest_request 0
         (table_of [(episode_of 7 1 None)\<lparr>episode.status := ''failed''\<rparr>,
                    episode_of 8 1 (Some 5)])))) \<and>
   episode.processing_step ((episode_of 8 1 (Some 5))\<lparr>episode.status := ''processing''\<rparr>) = None"
proof -
  let ?e = "(episode_of 7 1 None)\<lparr>episode.status := ''failed''\<rparr>"
  let ?e8 = "episode_of 8 1 (Some 5)"
  let ?d = "table_of [?e, ?e8]"
  let ?svc = "\<lparr>download_audio = (\<lambda>u. Inl ''404''), transcribe = (\<lambda>p. Inr ''hello''),
         analyze = (\<lambda>t. Inl ''rate limited'')\<rparr> :: services"
  have h: "step_only_while_processing ?d"
    by (simp add: step_only_while_processing_def table_of_def episode_of_def)
  have o: "mset (answer example_engine rows) = mset rows" for rows
    by (simp add: example_engine_def)
  have f: "find (\<lambda>x. episode.id x = 7) (episodes ?d) = Some ?e"
    by (simp add: table_of_def episode_of_def)
  have f2: "find (\<lambda>x. episode.id x = 7 \<and> episode.podcast_id x = 1) (episodes ?d) = Some ?e"
    by (simp add: table_of_def episode_of_def)
  have st: "episode.status ?e \<noteq> ''processing''"
    "\<not> (episode.status ?e = ''completed'' \<and> episode.summary ?e \<noteq> None
         \<and> episode.summary ?e \<noteq> Some [])"
    by simp_all
  have c: "committed (reset_stuck_episodes ?d) = [table_of [episode_of 7 1 None, ?e8]]"
    by (simp add: reset_stuck_episodes_def Let_def table_of_def episode_of_def)
  have sel: "select_episodes example_engine latest_request 0 ?d = [?e8]"
    by (simp add: select_episodes_def latest_join_def podcast_filter_def max_date_def Let_def
        latest_request_def table_of_def episode_of_def example_engine_def
        List.map_filter_simps)
  have pe: "episode.status ?e8 = ''pending''"
    by (simp add: episode_of_def)
  note t = processing_step_only_while_processing[OF h o, of ?svc 7 1 latest_request 0]
  from t have a: "list_all step_only_while_processing (committed (reset_stuck_episodes ?d))"
    by (elim conjE)
  from t have b: "\<forall>e. find (\<lambda>x. episode.id x = 7) (episodes ?d) = Some e \<longrightarrow>
            (\<exists>rest. commits (session (process_episode ?svc 7 ?d)) =
               put_episode (e\<lparr>episode.status := ''processing'',
                              episode.processing_step := Some ''starting''\<rparr>) ?d # rest)"
    by (elim conjE)
  from t have g: "\<forall>e. find (\<lambda>x. episode.id x = 7 \<and> episode.podcast_id x = 1) (episodes ?d) = Some e \<and>
              episode.status e \<noteq> ''processing'' \<and>
              \<not> (episode.status e = ''completed'' \<and> episode.summary e \<noteq> None
                   \<and> episode.summary e \<noteq> Some []) \<longrightarrow>
            committed (analyze_episode 1 7 ?d) =
              [put_episode (e\<lparr>episode.status := ''processing''\<rparr>) ?d] \<and>
            background_tasks (analyze_episode 1 7 ?d) = [7] \<and>
            episode.processing_step (e\<lparr>episode.status := ''processing''\<rparr>) = None"
    by (elim conjE)
  from t have k: "\<forall>e \<in> set (select_episodes example_engine latest_request 0 ?d).
            episode.status e = ''pending'' \<longrightarrow>
            e\<lparr>episode.status := ''processing''\<rparr>
              \<in> set (episodes (stored (batch_analyze example_engine latest_request 0 ?d))) \<and>
            episode.id e \<in> set (background_tasks (batch_analyze example_engine latest_request 0 ?d)) \<and>
            episode.processing_step (e\<lparr>episode.status := ''processing''\<rparr>) = None"
    by (elim conjE)
  from b f have "\<exists>rest. commits (session (process_episode ?svc 7 ?d)) =
               put_episode (?e\<lparr>episode.status := ''processing'',
                              episode.processing_step := Some ''starting''\<rparr>) ?d # rest"
    by blast
  moreover have "put_episode (?e\<lparr>episode.status := ''processing'',
                              episode.processing_step := Some ''starting''\<rparr>) ?d =
      table_of [(episode_of 7 1 None)\<lparr>episode.status := ''processing'',
                  episode.processing_step := Some ''starting''\<rparr>, ?e8]"
    by (simp add: put_episode_def table_of_def episode_of_def)
  ultimately have b': "\<exists>rest. commits (session (process_episode ?svc 7 ?d)) =
      table_of [(episode_of 7 1 None)\<lparr>episode.status := ''processing'',
                  episode.processing_step := Some ''starting''\<rparr>, ?e8] # rest"
    by simp
  from g f2 st have "committed (analyze_episode 1 7 ?d) =
              [put_episode (?e\<lparr>episode.status := ''processing''\<rparr>) ?d]"
    by blast
  moreover have "put_episode (?e\<lparr>episode.status := ''processing''\<rparr>) ?d =
      table_of [(episode_of 7 1 None)\<lparr>episode.status := ''processing''\<rparr>, ?e8]"
    by (simp add: put_episode_def table_of_def episode_of_def)
  ultimately have g': "committed (analyze_episode 1 7 ?d) =
      [table_of [(episode_of 7 1 None)\<lparr>episode.status := ''processing''\<rparr>, ?e8]]"
    by simp
  from k pe have k': "?e8\<lparr>episode.status := ''processing''\<rparr>
      \<in> set (episodes (stored (batch_analyze example_engine latest_request 0 ?d))) \<and>
      episode.processing_step (?e8\<lparr>episode.status := ''processing''\<rparr>) = None"
    unfolding sel by simp
  from h c a b' g' sel k' show ?thesis by simp
qed

theorem analyze_episode_null_step_counterexample:
  "committed (analyze_episode 1 7 (table_of [episode_of 7 1 None])) =
     [table_of [(episode_of 7 1 None)\<lparr>episode.status := ''processing''\<rparr>]] \<and>
   episode.processing_step ((episode_of 7 1 None)\<lparr>episode.status := ''processing''\<rparr>) = None"
  by (simp add: analyze_episode_def put_episode_def Let_def table_of_def episode_of_def)

section \<open>The batch coordinator\<close>

lemma max_date_Some:
  "max_date es p = Some m \<longleftrightarrow>
     List.map_filter episode.published_at (filter (\<lambda>e. episode.podcast_id e = p) es) \<noteq> [] \<and>
     m = Max (set (List.map_filter episode.published_at (filter (\<lambda>e. episode.podcast_id e = p) es)))"
  by (auto simp: max_date_def Max.set_eq_fold[symmetric] split: list.splits)

lemma set_map_filter: "set (List.map_filter f xs) = {y. \<exists>x \<in> set xs. f x = Some y}"
  by (induction xs) (auto simp: List.map_filter_simps split: option.splits)

lemma max_date_upper:
  assumes "max_date es p = Some m" "e \<in> set es" "episode.podcast_id e = p" "episode.published_at e = Some t"
  shows "t \<le> m"
proof -
  let ?ds = "List.map_filter episode.published_at (filter (\<lambda>e. episode.podcast_id e = p) es)"
  have "t \<in> set ?ds" using assms(2-4) by (auto simp: set_map_filter)
  moreover have "m = Max (set ?ds)" using assms(1) by (simp add: max_date_Some)
  ultimately show ?thesis by simp
qed

lemma max_date_attained:
  assumes "max_date es p = Some m"
  shows "\<exists>e \<in> set es. episode.podcast_id e = p \<and> episode.published_at e = Some m"
proof -
  let ?ds = "List.map_filter episode.published_at (filter (\<lambda>e. episode.podcast_id e = p) es)"
  from assms have ne: "?ds \<noteq> []" and m: "m = Max (set ?ds)" by (simp_all add: max_date_Some)
  then have "m \<in> set ?ds" using Max_in[of "set ?ds"] by simp
  then show ?thesis by (auto simp: set_map_filter)
qed

lemma max_date_exists:
  assumes "e \<in> set es" "episode.podcast_id e = p" "episode.published_at e = Some t"
  shows "\<exists>m. max_date es p = Some m"
proof -
  have "t \<in> set (List.map_filter episode.published_at (filter (\<lambda>e. episode.podcast_id e = p) es))"
    using assms by (auto simp: set_map_filter)
  then show ?thesis by (auto simp: max_date_def split: list.splits)
qed

lemma latest_join_is_maximal:
  assumes "e \<in> set (latest_join table query)"
  shows "\<exists>t. episode.published_at e = Some t \<and>
     (\<forall>e' \<in> set table. episode.podcast_id e' = episode.podcast_id e \<longrightarrow>
        (\<forall>t'. episode.published_at e' = Some t' \<longrightarrow> t' \<le> t))"
proof -
  from assms obtain t where t: "episode.published_at e = Some t"
    and m: "max_date table (episode.podcast_id e) = Some t"
    by (auto simp: latest_join_def split: option.splits)
  from max_date_upper[OF m] t show ?thesis by blast
qed

lemma podcast_filter_same_podcast:
  "e0 \<in> set (podcast_filter ids table) \<Longrightarrow> e \<in> set table \<Longrightarrow>
   episode.podcast_id e = episode.podcast_id e0 \<Longrightarrow> e \<in> set (podcast_filter ids table)"
  by (auto simp: podcast_filter_def split: option.splits if_splits)

lemma podcast_filter_subset: "e \<in> set (podcast_filter ids table) \<Longrightarrow> e \<in> set table"
  by (auto simp: podcast_filter_def split: option.splits if_splits)

lemma latest_join_covers:
  assumes "e0 \<in> set (podcast_filter ids table)" "episode.published_at e0 = Some t0"
  shows "\<exists>e \<in> set (latest_join table (podcast_filter ids table)).
           episode.podcast_id e = episode.podcast_id e0"
proof -
  from assms(1) have "e0 \<in> set table" by (rule podcast_filter_subset)
  from max_date_exists[OF this refl assms(2)]
  obtain m where m: "max_date table (episode.podcast_id e0) = Some m" ..
  from max_date_attained[OF m] obtain e where e: "e \<in> set table"
    "episode.podcast_id e = episode.podcast_id e0" "episode.published_at e = Some m" by blast
  from podcast_filter_same_podcast[OF assms(1) e(1,2)]
  have "e \<in> set (podcast_filter ids table)" .
  with e m have "e \<in> set (latest_join table (podcast_filter ids table))"
    by (simp add: latest_join_def)
  with e(2) show ?thesis by blast
qed

lemma distinct_map_filter_unique:
  "distinct (List.map_filter f xs) \<Longrightarrow> length (filter (\<lambda>x. f x = Some m) xs) \<le> 1"
proof (induction xs)
  case Nil
  show ?case by simp
next
  case (Cons x xs)
  show ?case
  proof (cases "f x = Some m")
    case True
    with Cons.prems have "m \<notin> set (List.map_filter f xs)"
      by (simp add: List.map_filter_simps)
    then have "filter (\<lambda>x. f x = Some m) xs = []"
      by (auto simp: set_map_filter filter_empty_conv)
    with True show ?thesis by simp
  next
    case False
    with Cons show ?thesis
      by (cases "f x") (simp_all add: List.map_filter_simps)
  qed
qed

lemma length_filter_podcast_filter:
  "length (filter P (podcast_filter ids table)) \<le> length (filter P table)"
proof -
  have "length (filter P (filter Q table)) \<le> length (filter P table)" for Q
    by (induction table) auto
  then show ?thesis
    by (auto simp: podcast_filter_def split: option.splits)
qed

lemma latest_join_at_most_one:
  assumes "distinct (List.map_filter episode.published_at (filter (\<lambda>e. episode.podcast_id e = p) table))"
  shows "length (filter (\<lambda>e. episode.podcast_id e = p)
            (latest_join table (podcast_filter ids table))) \<le> 1"
proof (cases "max_date table p")
  case None
  then have "filter (\<lambda>e. episode.podcast_id e = p) (latest_join table (podcast_filter ids table)) = []"
    by (auto simp: latest_join_def filter_empty_conv split: option.splits)
  then show ?thesis by simp
next
  case (Some m)
  let ?P = "\<lambda>e. episode.podcast_id e = p \<and> episode.published_at e = Some m"
  have eq: "filter (\<lambda>e. episode.podcast_id e = p) (latest_join table query) = filter ?P query"
    for query
    using Some by (auto simp: latest_join_def intro!: filter_cong split: option.splits)
  have "length (filter ?P (podcast_filter ids table)) \<le> length (filter ?P table)"
    by (rule length_filter_podcast_filter)
  also have "filter ?P table =
      filter (\<lambda>e. episode.published_at e = Some m) (filter (\<lambda>e. episode.podcast_id e = p) table)"
    by (simp add: conj_commute)
  also have "length \<dots> \<le> 1"
    using assms by (rule distinct_map_filter_unique)
  finally show ?thesis by (simp add: eq)
qed


lemma latest_join_exact:
  assumes "set query \<subseteq> set table"
  shows "latest_join table query =
     filter (\<lambda>e. \<exists>t. episode.published_at e = Some t \<and>
               (\<forall>x \<in> set table. episode.podcast_id x = episode.podcast_id e \<longrightarrow>
                  (\<forall>u. episode.published_at x = Some u \<longrightarrow> u \<le> t))) query"
  unfolding latest_join_def
proof (rule filter_cong[OF refl])
  fix e assume "e \<in> set query"
  with assms have m: "e \<in> set table" by blast
  show "(case episode.published_at e of None \<Rightarrow> False
         | Some t \<Rightarrow> max_date table (episode.podcast_id e) = Some t) =
        (\<exists>t. episode.published_at e = Some t \<and>
           (\<forall>x \<in> set table. episode.podcast_id x = episode.podcast_id e \<longrightarrow>
              (\<forall>u. episode.published_at x = Some u \<longrightarrow> u \<le> t)))"
  proof (cases "episode.published_at e")
    case None
    then show ?thesis by simp
  next
    case (Some t)
    have "max_date table (episode.podcast_id e) = Some t \<longleftrightarrow>
        (\<forall>x \<in> set table. episode.podcast_id x = episode.podcast_id e \<longrightarrow>
           (\<forall>u. episode.published_at x = Some u \<longrightarrow> u \<le> t))"
    proof
      assume a: "max_date table (episode.podcast_id e) = Some t"
      show "\<forall>x \<in> set table. episode.podcast_id x = episode.podcast_id e \<longrightarrow>
           (\<forall>u. episode.published_at x = Some u \<longrightarrow> u \<le> t)"
        using max_date_upper[OF a] by blast
    next
      assume a: "\<forall>x \<in> set table. episode.podcast_id x = episode.podcast_id e \<longrightarrow>
           (\<forall>u. episode.published_at x = Some u \<longrightarrow> u \<le> t)"
      from max_date_exists[OF m refl Some]
      obtain k where k: "max_date table (episode.podcast_id e) = Some k" ..
      from max_date_attained[OF k] a have "k \<le> t" by blast
      moreover from max_date_upper[OF k m refl Some] have "t \<le> k" .
      ultimately show "max_date table (episode.podcast_id e) = Some t"
        using k by simp
    qed
    with Some show ?thesis by simp
  qed
qed

lemma length_filter_answer:
  assumes "\<And>rows. mset (answer eng rows) = mset rows"
  shows "length (filter P (answer eng rows)) = length (filter P rows)"
proof -
  have "mset (filter P (answer eng rows)) = mset (filter P rows)"
    unfolding mset_filter assms ..
  then show ?thesis by (rule mset_eq_length)
qed

lemma select_episodes_latest:
  "period request = LATEST \<Longrightarrow>
   select_episodes eng request now d =
     answer eng (latest_join (episodes d)
       (podcast_filter (BatchAnalysisRequest.podcast_ids request) (episodes d)))"
  by (simp add: select_episodes_def Let_def)

text \<open>
  C5 (amended). For the period "latest", the selection is made, in the order of the
  engine, of exactly those episodes passing the podcast filter that are dated and have no
  later episode in their podcast. So an episode of the filtered set with the date of a
  selected episode of its podcast is selected too; every podcast with a dated episode in
  the filtered set has a selected episode; a podcast whose dates are pairwise different
  has at most one; and a podcast without a dated episode has none.
\<close>

theorem latest_per_podcast_selection:
  assumes "period request = LATEST"
    and "\<And>rows. mset (answer eng rows) = mset rows"
  shows "mset (select_episodes eng request now d) =
           mset (filter
             (\<lambda>e. \<exists>t. episode.published_at e = Some t \<and>
                (\<forall>x \<in> set (episodes d). episode.podcast_id x = episode.podcast_id e \<longrightarrow>
                   (\<forall>u. episode.published_at x = Some u \<longrightarrow> u \<le> t)))
             (podcast_filter (BatchAnalysisRequest.podcast_ids request) (episodes d))) \<and>
         (\<forall>e \<in> set (select_episodes eng request now d).
            \<forall>e' \<in> set (podcast_filter (BatchAnalysisRequest.podcast_ids request) (episodes d)).
              episode.podcast_id e' = episode.podcast_id e \<and>
              episode.published_at e' = episode.published_at e \<longrightarrow>
              e' \<in> set (select_episodes eng request now d)) \<and>
         (\<forall>e0 \<in> set (podcast_filter (BatchAnalysisRequest.podcast_ids request) (episodes d)).
            episode.published_at e0 \<noteq> None \<longrightarrow>
            (\<exists>e \<in> set (select_episodes eng request now d).
               episode.podcast_id e = episode.podcast_id e0)) \<and>
         (\<forall>p. distinct (List.map_filter episode.published_at
                  (filter (\<lambda>e. episode.podcast_id e = p) (episodes d))) \<longrightarrow>
            length (filter (\<lambda>e. episode.podcast_id e = p) (select_episodes eng request now d))
              \<le> 1) \<and>
         (\<forall>p. (\<forall>x \<in> set (episodes d). episode.podcast_id x = p \<longrightarrow>
                   episode.published_at x = None) \<longrightarrow>
            filter (\<lambda>e. episode.podcast_id e = p) (select_episodes eng request now d) = [])"
proof -
  let ?ids = "BatchAnalysisRequest.podcast_ids request"
  let ?q = "podcast_filter ?ids (episodes d)"
  let ?L = "\<lambda>e. \<exists>t. episode.published_at e = Some t \<and>
                (\<forall>x \<in> set (episodes d). episode.podcast_id x = episode.podcast_id e \<longrightarrow>
                   (\<forall>u. episode.published_at x = Some u \<longrightarrow> u \<le> t))"
  have s: "select_episodes eng request now d = answer eng (latest_join (episodes d) ?q)"
    using assms(1) by (rule select_episodes_latest)
  have sub: "set ?q \<subseteq> set (episodes d)"
    using podcast_filter_subset by blast
  have lj: "latest_join (episodes d) ?q = filter ?L ?q"
    using sub by (rule latest_join_exact)
  have ms: "mset (select_episodes eng request now d) = mset (filter ?L ?q)"
    unfolding s assms(2) lj ..
  have st: "set (select_episodes eng request now d) = set (latest_join (episodes d) ?q)"
    unfolding s by (rule set_answer[OF assms(2)])
  have a: "\<forall>e \<in> set (select_episodes eng request now d). \<forall>e' \<in> set ?q.
              episode.podcast_id e' = episode.podcast_id e \<and>
              episode.published_at e' = episode.published_at e \<longrightarrow>
              e' \<in> set (select_episodes eng request now d)"
    unfolding st lj by auto
  have b: "\<forall>e0 \<in> set ?q. episode.published_at e0 \<noteq> None \<longrightarrow>
            (\<exists>e \<in> set (select_episodes eng request now d).
               episode.podcast_id e = episode.podcast_id e0)"
    using latest_join_covers[of _ ?ids "episodes d"] unfolding st by auto
  have c: "\<forall>p. distinct (List.map_filter episode.published_at
                  (filter (\<lambda>e. episode.podcast_id e = p) (episodes d))) \<longrightarrow>
            length (filter (\<lambda>e. episode.podcast_id e = p) (select_episodes eng request now d))
              \<le> 1"
    unfolding s length_filter_answer[OF assms(2)]
    using latest_join_at_most_one[of _ "episodes d" ?ids] by simp
  have e: "\<forall>p. (\<forall>x \<in> set (episodes d). episode.podcast_id x = p \<longrightarrow>
                   episode.published_at x = None) \<longrightarrow>
            filter (\<lambda>e. episode.podcast_id e = p) (select_episodes eng request now d) = []"
  proof (intro allI impI)
    fix p
    assume u: "\<forall>x \<in> set (episodes d). episode.podcast_id x = p \<longrightarrow>
                   episode.published_at x = None"
    have "\<forall>x \<in> set (select_episodes eng request now d). episode.podcast_id x \<noteq> p"
    proof
      fix x assume "x \<in> set (select_episodes eng request now d)"
      then have x: "x \<in> set ?q" "?L x"
        unfolding st lj by simp_all
      from x(1) sub have "x \<in> set (episodes d)" by blast
      with u x(2) show "episode.podcast_id x \<noteq> p" by auto
    qed
    then show "filter (\<lambda>e. episode.podcast_id e = p) (select_episodes eng request now d) = []"
      by (simp add: filter_empty_conv)
  qed
  from ms a b c e show ?thesis by (intro conjI)
qed

theorem latest_per_podcast_selection_witness:
  "period latest_request = LATEST \<and>
   select_episodes example_engine latest_request 0
     (table_of [episode_of 1 1 (Some 10), episode_of 2 1 (Some 20), episode_of 3 2 (Some 5)]) =
     [episode_of 3 2 (Some 5), episode_of 2 1 (Some 20)] \<and>
   mset (filter
     (\<lambda>e. \<exists>t. episode.published_at e = Some t \<and>
        (\<forall>x \<in> set (episodes (table_of
              [episode_of 1 1 (Some 10), episode_of 2 1 (Some 20), episode_of 3 2 (Some 5)])).
           episode.podcast_id x = episode.podcast_id e \<longrightarrow>
           (\<forall>u. episode.published_at x = Some u \<longrightarrow> u \<le> t)))
     (podcast_filter (BatchAnalysisRequest.podcast_ids latest_request)
        (episodes (table_of
           [episode_of 1 1 (Some 10), episode_of 2 1 (Some 20), episode_of 3 2 (Some 5)])))) =
     mset [episode_of 3 2 (Some 5), episode_of 2 1 (Some 20)] \<and>
   distinct (List.map_filter episode.published_at
     (filter (\<lambda>e. episode.podcast_id e = 1)
        (episodes (table_of
           [episode_of 1 1 (Some 10), episode_of 2 1 (Some 20), episode_of 3 2 (Some 5)])))) \<and>
   length (filter (\<lambda>e. episode.podcast_id e = 1)
     (select_episodes example_engine latest_request 0
        (table_of [episode_of 1 1 (Some 10), episode_of 2 1 (Some 20), episode_of 3 2 (Some 5)])))
     \<le> 1"
proof -
  let ?d = "table_of [episode_of 1 1 (Some 10), episode_of 2 1 (Some 20), episode_of 3 2 (Some 5)]"
  have p: "period latest_request = LATEST"
    by (simp add: latest_request_def)
  have o: "mset (answer example_engine rows) = mset rows" for rows
    by (simp add: example_engine_def)
  have s: "select_episodes example_engine latest_request 0 ?d =
      [episode_of 3 2 (Some 5), episode_of 2 1 (Some 20)]"
    by (simp add: select_episodes_def latest_join_def podcast_filter_def max_date_def Let_def
        latest_request_def table_of_def episode_of_def example_engine_def
        List.map_filter_simps)
  have dd: "distinct (List.map_filter episode.published_at
      (filter (\<lambda>e. episode.podcast_id e = 1) (episodes ?d)))"
    by (simp add: List.map_filter_simps table_of_def episode_of_def)
  note t = latest_per_podcast_selection[OF p o, of 0 ?d]
  from t have m: "mset (select_episodes example_engine latest_request 0 ?d) =
           mset (filter
             (\<lambda>e. \<exists>t. episode.published_at e = Some t \<and>
                (\<forall>x \<in> set (episodes ?d). episode.podcast_id x = episode.podcast_id e \<longrightarrow>
                   (\<forall>u. episode.published_at x = Some u \<longrightarrow> u \<le> t)))
             (podcast_filter (BatchAnalysisRequest.podcast_ids latest_request) (episodes ?d)))"
    by (elim conjE)
  from t have c: "\<forall>p. distinct (List.map_filter episode.published_at
                  (filter (\<lambda>e. episode.podcast_id e = p) (episodes ?d))) \<longrightarrow>
            length (filter (\<lambda>e. episode.podcast_id e = p)
              (select_episodes example_engine latest_request 0 ?d)) \<le> 1"
    by (elim conjE)
  from c dd
  have l: "length (filter (\<lambda>e. episode.podcast_id e = 1)
      (select_episodes example_engine latest_request 0 ?d)) \<le> 1"
    by blast
  from m[symmetric] have m': "mset (filter
             (\<lambda>e. \<exists>t. episode.published_at e = Some t \<and>
                (\<forall>x \<in> set (episodes ?d). episode.podcast_id x = episode.podcast_id e \<longrightarrow>
                   (\<forall>u. episode.published_at x = Some u \<longrightarrow> u \<le> t)))
             (podcast_filter (BatchAnalysisRequest.podcast_ids latest_request) (episodes ?d))) =
      mset [episode_of 3 2 (Some 5), episode_of 2 1 (Some 20)]"
    unfolding s .
  from p s m' dd l show ?thesis by (intro conjI)
qed

theorem latest_per_podcast_tie_counterexample:
  "select_episodes example_engine latest_request 0
     (table_of [episode_of 1 1 (Some 10), episode_of 2 1 (Some 10)]) =
     [episode_of 2 1 (Some 10), episode_of 1 1 (Some 10)]"
  by (simp add: select_episodes_def latest_join_def podcast_filter_def max_date_def Let_def
      latest_request_def table_of_def episode_of_def example_engine_def List.map_filter_simps)

lemma latest_per_podcast_undated:
  "select_episodes example_engine latest_request 0
     (table_of [episode_of 1 1 None, episode_of 2 1 None]) = []"
  by (simp add: select_episodes_def latest_join_def podcast_filter_def max_date_def Let_def
      latest_request_def table_of_def episode_of_def example_engine_def List.map_filter_simps)

section \<open>The digest pipeline\<close>

lemma put_digest_put_digest:
  "digest.id a = digest.id b \<Longrightarrow> put_digest a (put_digest b d) = put_digest a d"
  by (simp add: put_digest_def comp_def cong: if_cong)

lemma put_digest_fields [simp]:
  "digest_episodes (put_digest g d) = digest_episodes d"
  "episode_analyses (put_digest g d) = episode_analyses d"
  "podcasts (put_digest g d) = podcasts d"
  "episodes (put_digest g d) = episodes d"
  by (simp_all add: put_digest_def)

lemma put_digest_links:
  "(put_digest g d)\<lparr>digest_episodes := l\<rparr> = put_digest g (d\<lparr>digest_episodes := l\<rparr>)"
  by (simp add: put_digest_def)

lemma find_put_digest:
  assumes "find (\<lambda>x. digest.id x = i) (digests d) = Some g" "digest.id g' = i"
  shows "find (\<lambda>x. digest.id x = i) (digests (put_digest g' d)) = Some g'"
proof -
  have "find (\<lambda>x. digest.id x = i) gs = Some g \<Longrightarrow>
        find (\<lambda>x. digest.id x = i) (map (\<lambda>x. if digest.id x = digest.id g' then g' else x) gs) = Some g'"
    for gs
    using assms(2) by (induction gs) (auto split: if_splits)
  with assms(1) show ?thesis by (simp add: put_digest_def)
qed

lemma find_digest_id: "find (\<lambda>x. digest.id x = i) gs = Some g \<Longrightarrow> digest.id g = i"
  by (induction gs) (auto split: if_splits)

lemma update_digest_progress_id [simp]:
  "digest.id (update_digest_progress g st de) = digest.id g"
  by (simp add: update_digest_progress_def)

lemma project_cong:
  "podcasts d1 = podcasts d2 \<Longrightarrow> project e a d1 = project e a d2"
  by (simp add: project_def)

lemma collect_result:
  assumes "store s = put_digest g (d\<lparr>digest_episodes := l\<rparr>)"
    and "collect did tot xs g acc s = (g', acc', s')"
  shows "store s' = put_digest g' (d\<lparr>digest_episodes := l @ links did d (map snd xs)\<rparr>) \<and>
         acc' = acc @ projected d (map snd xs) \<and>
         (\<exists>st de. g' = g\<lparr>digest.processing_step := st, digest.processing_detail := de\<rparr>)"
  using assms
proof (induction xs arbitrary: g acc s l)
  case Nil
  have "g = g\<lparr>digest.processing_step := digest.processing_step g,
               digest.processing_detail := digest.processing_detail g\<rparr>" by simp
  then have "\<exists>st de. g = g\<lparr>digest.processing_step := st, digest.processing_detail := de\<rparr>"
    by blast
  with Nil show ?case
    by (simp add: links_def with_analysis_def projected_def List.map_filter_simps)
next
  case (Cons x xs)
  obtain i ep where x: "x = (i, ep)" by (cases x)
  have an: "episode_analyses (store s) = episode_analyses d"
    using Cons.prems(1) by simp
  show ?case
  proof (cases "find (\<lambda>a. episode_analysis.episode_id a = episode.id ep) (episode_analyses d)")
    case None
    with Cons.prems(2) x an have run: "collect did tot xs g acc s = (g', acc', s')"
      by simp
    from Cons.IH[OF Cons.prems(1) run] None x show ?thesis
      by (simp add: links_def with_analysis_def projected_def List.map_filter_simps)
  next
    case (Some a)
    let ?g1 = "update_digest_progress g ''collecting_episodes''
                         (''Reading episode '' @ str_nat (i + 1) @ ''/'' @ str_nat tot @ '': ''
                            @ take 40 (episode.title ep) @ ''...'')"
    let ?l1 = "l @ [\<lparr>digest_id = did, digest_episode.episode_id = episode.id ep\<rparr>]"
    let ?s1 = "commit (put_digest ?g1 ((store s)\<lparr>digest_episodes := digest_episodes (store s)
                          @ [\<lparr>digest_id = did, digest_episode.episode_id = episode.id ep\<rparr>]\<rparr>)) s"
    have run: "collect did tot xs ?g1 (acc @ [project ep a (store s)]) ?s1 = (g', acc', s')"
      using Cons.prems(2) x an Some by (simp add: Let_def)
    have st: "store ?s1 = put_digest ?g1 (d\<lparr>digest_episodes := ?l1\<rparr>)"
      using Cons.prems(1)
      by (simp add: commit_def put_digest_links put_digest_put_digest)
    have pr: "project ep a (store s) = project ep a d"
      using Cons.prems(1) by (intro project_cong) simp
    from Cons.IH[OF st run]
    have 1: "store s' = put_digest g' (d\<lparr>digest_episodes := ?l1 @ links did d (map snd xs)\<rparr>)"
      and 2: "acc' = (acc @ [project ep a (store s)]) @ projected d (map snd xs)"
      and 3: "\<exists>st de. g' = ?g1\<lparr>digest.processing_step := st, digest.processing_detail := de\<rparr>"
      by blast+
    from 3 have g3: "\<exists>st de. g' = g\<lparr>digest.processing_step := st, digest.processing_detail := de\<rparr>"
      by (auto simp: update_digest_progress_def)
    from 1 2 g3 Some x pr show ?thesis
      by (simp add: links_def with_analysis_def projected_def List.map_filter_simps)
  qed
qed

lemma projected_Nil_iff: "projected d eps = [] \<longleftrightarrow> with_analysis d eps = []"
  by (induction eps) (auto simp: projected_def with_analysis_def List.map_filter_simps)


lemma in_period_progress [simp]:
  "in_period (g\<lparr>digest.status := st\<rparr>) = in_period g"
  "in_period (update_digest_progress g a b) = in_period g"
  by (rule ext, simp add: in_period_def update_digest_progress_def cong: option.case_cong)+

lemma qualifying_progress [simp]:
  "qualifying eng (g\<lparr>digest.status := st\<rparr>) d = qualifying eng g d"
  "qualifying eng (update_digest_progress g a b) d = qualifying eng g d"
  by (simp_all add: qualifying_def matching_def)
     (simp add: update_digest_progress_def)

lemma map_snd_enumerate: "map snd (enumerate n xs) = xs"
  by (induction xs arbitrary: n) auto


lemma process_digest_collects:
  assumes "find (\<lambda>x. digest.id x = did) (digests d) = Some g"
  shows "\<exists>g3 s3 st de.
           process_digest eng w did d = digest_collected eng w g3 (projected d (qualifying eng g d)) s3 \<and>
           store s3 = put_digest g3
             (d\<lparr>digest_episodes := digest_episodes d @ links did d (qualifying eng g d)\<rparr>) \<and>
           g3 = g\<lparr>digest.status := ''processing'', digest.processing_step := st,
                   digest.processing_detail := de\<rparr>"
proof -
  let ?g1 = "update_digest_progress (g\<lparr>digest.status := ''processing''\<rparr>)
                      ''collecting_episodes'' ''Finding analysed episodes...''"
  let ?s1 = "commit (put_digest ?g1 d) \<lparr>store = d, commits = []\<rparr>"
  let ?eps = "qualifying eng g d"
  let ?g2 = "update_digest_progress ?g1 ''collecting_episodes''
                      (''Found '' @ str_nat (length ?eps) @ '' episodes, reading analyses...'')"
  let ?s2 = "commit (put_digest ?g2 (store ?s1)) ?s1"
  obtain g3 acc s3 where c: "collect did (length ?eps) (enumerate 0 ?eps) ?g2 [] ?s2 = (g3, acc, s3)"
    by (cases "collect did (length ?eps) (enumerate 0 ?eps) ?g2 [] ?s2") auto
  have st: "store ?s2 = put_digest ?g2 (d\<lparr>digest_episodes := digest_episodes d\<rparr>)"
    by (simp add: commit_def put_digest_put_digest)
  from collect_result[OF st c]
  have 1: "store s3 = put_digest g3
             (d\<lparr>digest_episodes := digest_episodes d @ links did d ?eps\<rparr>)"
    and 2: "acc = projected d ?eps"
    and 3: "\<exists>st de. g3 = ?g2\<lparr>digest.processing_step := st, digest.processing_detail := de\<rparr>"
    by (simp_all add: map_snd_enumerate)
  from 3 obtain st de where
    "g3 = ?g2\<lparr>digest.processing_step := st, digest.processing_detail := de\<rparr>"
    by blast
  then have
    "g3 = g\<lparr>digest.status := ''processing'', digest.processing_step := st,
                   digest.processing_detail := de\<rparr>"
    by (simp add: update_digest_progress_def)
  moreover have "process_digest eng w did d = digest_collected eng w g3 (projected d ?eps) s3"
    using assms c 2 by (simp add: process_digest_def Let_def)
  ultimately show ?thesis using 1 by blast
qed

text \<open>
  C6. When no episode that qualifies for the digest has an analysis, the digest is stored
  as completed with no episode, the fixed summary and neither step nor detail; no call to
  the synthesis and none to the image service is made, and nothing is raised.
\<close>

theorem no_episodes_short_circuit:
  assumes "find (\<lambda>x. digest.id x = did) (digests d) = Some g"
    and "with_analysis d (qualifying eng g d) = []"
  shows "synthesis_inputs (process_digest eng w did d) = [] \<and>
         image_prompts (process_digest eng w did d) = [] \<and>
         digest_raised (process_digest eng w did d) = None \<and>
         find (\<lambda>x. digest.id x = did)
           (digests (store (digest_session (process_digest eng w did d)))) =
           Some (g\<lparr>digest.status := ''completed'', digest.processing_step := None,
                   digest.processing_detail := None,
                   digest.summary :=
                     Some ''No analyzed episodes found in this time period.'',
                   digest.episode_count := 0\<rparr>) \<and>
         digest_episodes (store (digest_session (process_digest eng w did d))) = digest_episodes d"
proof -
  from process_digest_collects[OF assms(1), of eng w]
  obtain g3 s3 st de where
    p: "process_digest eng w did d = digest_collected eng w g3 (projected d (qualifying eng g d)) s3"
    and s: "store s3 = put_digest g3
             (d\<lparr>digest_episodes := digest_episodes d @ links did d (qualifying eng g d)\<rparr>)"
    and g: "g3 = g\<lparr>digest.status := ''processing'', digest.processing_step := st,
                   digest.processing_detail := de\<rparr>"
    by blast
  have e: "projected d (qualifying eng g d) = []"
    using assms(2) by (simp add: projected_Nil_iff)
  have l: "links did d (qualifying eng g d) = []"
    using assms(2) by (simp add: links_def)
  have i: "digest.id g = did"
    using assms(1) by (rule find_digest_id)
  let ?gf = "g\<lparr>digest.status := ''completed'', digest.processing_step := None,
                   digest.processing_detail := None,
                   digest.summary :=
                     Some ''No analyzed episodes found in this time period.'',
                   digest.episode_count := 0\<rparr>"
  have f: "digest_collected eng w g3 [] s3 =
      \<lparr>digest_session =
         \<lparr>store = put_digest ?gf d,
          commits = commits s3 @ [put_digest g3 d, put_digest ?gf d]\<rparr>,
       synthesis_inputs = [], image_prompts = [], digest_raised = None\<rparr>"
    using s l g by (simp add: digest_collected_def commit_def Let_def put_digest_put_digest)
  show ?thesis
    unfolding p e f using find_put_digest[OF assms(1), of ?gf] i by simp
qed

theorem no_episodes_short_circuit_witness:
  "find (\<lambda>x. digest.id x = 1) (digests (example_db\<lparr>episode_analyses := []\<rparr>)) =
     Some example_digest \<and>
   with_analysis (example_db\<lparr>episode_analyses := []\<rparr>)
     (qualifying example_engine example_digest (example_db\<lparr>episode_analyses := []\<rparr>)) = [] \<and>
   synthesis_inputs (process_digest example_engine imageless_world 1 (example_db\<lparr>episode_analyses := []\<rparr>)) = [] \<and>
   find (\<lambda>x. digest.id x = 1)
     (digests (store (digest_session
        (process_digest example_engine imageless_world 1 (example_db\<lparr>episode_analyses := []\<rparr>))))) =
     Some (example_digest\<lparr>digest.status := ''completed'',
             digest.summary := Some ''No analyzed episodes found in this time period.''\<rparr>)"
proof -
  let ?d = "example_db\<lparr>episode_analyses := []\<rparr>"
  have f: "find (\<lambda>x. digest.id x = 1) (digests ?d) = Some example_digest"
    by (simp add: example_db_def example_digest_def)
  have n: "with_analysis ?d (qualifying example_engine example_digest ?d) = []"
    by (simp add: with_analysis_def)
  have g: "example_digest\<lparr>digest.status := ''completed'', digest.processing_step := None,
                   digest.processing_detail := None,
                   digest.summary :=
                     Some ''No analyzed episodes found in this time period.'',
                   digest.episode_count := 0\<rparr> =
           example_digest\<lparr>digest.status := ''completed'',
             digest.summary := Some ''No analyzed episodes found in this time period.''\<rparr>"
    by (simp add: example_digest_def)
  from no_episodes_short_circuit[OF f n, of imageless_world] f n
  show ?thesis unfolding g by simp
qed

lemma report_result:
  assumes "store s = put_digest g dd" and "report ds g s = (g', s')"
  shows "store s' = put_digest g' dd \<and>
         (\<exists>st de. g' = g\<lparr>digest.processing_step := st, digest.processing_detail := de\<rparr>)"
  using assms
proof (induction ds arbitrary: g s)
  case Nil
  have "g = g\<lparr>digest.processing_step := digest.processing_step g,
               digest.processing_detail := digest.processing_detail g\<rparr>" by simp
  then have "\<exists>st de. g = g\<lparr>digest.processing_step := st, digest.processing_detail := de\<rparr>"
    by blast
  with Nil show ?case by simp
next
  case (Cons a ds)
  let ?g1 = "update_digest_progress g ''generating_image'' a"
  let ?s1 = "commit (put_digest ?g1 (store s)) s"
  have st: "store ?s1 = put_digest ?g1 dd"
    using Cons.prems(1) by (simp add: commit_def put_digest_put_digest)
  have run: "report ds ?g1 ?s1 = (g', s')"
    using Cons.prems(2) by (simp add: Let_def)
  from Cons.IH[OF st run] obtain st' de' where
    1: "store s' = put_digest g' dd"
    and 2: "g' = ?g1\<lparr>digest.processing_step := st', digest.processing_detail := de'\<rparr>"
    by blast
  from 2 have "g' = g\<lparr>digest.processing_step := st', digest.processing_detail := de'\<rparr>"
    by (simp add: update_digest_progress_def)
  with 1 show ?case by blast
qed

lemma digest_generating_failure:
  assumes s: "store s = put_digest g3 dd"
    and g: "g3 = g\<lparr>digest.status := ''processing'', digest.processing_step := st,
                   digest.processing_detail := de\<rparr>"
    and o: "outcome (generate_digest w eps (period_start g) (period_end g) True) = Inl msg"
  shows "store (digest_session (digest_generating eng w g3 eps s)) =
           put_digest (g\<lparr>digest.status := ''failed'', digest.processing_step := None,
                         digest.processing_detail := None,
                         digest.summary := Some (''Error: '' @ msg)\<rparr>) dd \<and>
         digest_raised (digest_generating eng w g3 eps s) = Some msg"
proof -
  let ?g1 = "update_digest_progress g3 ''generating_content''
                 (''Claude is synthesising insights from '' @ str_nat (length eps) @ '' episodes...'')"
  let ?s1 = "commit (put_digest ?g1 (store s)) s"
  let ?gen = "generate_digest w eps (period_start g) (period_end g) True"
  have p: "period_start ?g1 = period_start g" "period_end ?g1 = period_end g"
    by (simp_all add: g update_digest_progress_def)
  obtain g2 s2 where r: "report (reported ?gen) ?g1 ?s1 = (g2, s2)"
    by (cases "report (reported ?gen) ?g1 ?s1") auto
  have st: "store ?s1 = put_digest ?g1 dd"
    using s by (simp add: commit_def put_digest_put_digest)
  from report_result[OF st r] obtain st' de' where
    1: "store s2 = put_digest g2 dd"
    and 2: "g2 = ?g1\<lparr>digest.processing_step := st', digest.processing_detail := de'\<rparr>"
    by blast
  from 2 have g2: "g2 = g\<lparr>digest.status := ''processing'', digest.processing_step := st',
                   digest.processing_detail := de'\<rparr>"
    by (simp add: g update_digest_progress_def)
  have "digest_generating eng w g3 eps s =
          digest_failed g2 msg s2 (synthesis_calls ?gen) (image_calls ?gen)"
    unfolding digest_generating_def Let_def p r o by simp
  then show ?thesis
    using 1 g2 by (simp add: digest_failed_def Let_def commit_def put_digest_put_digest)
qed

lemma digest_generating_reported:
  assumes s: "store s = put_digest g3 dd"
    and g: "g3 = g\<lparr>digest.status := ''processing'', digest.processing_step := st,
                   digest.processing_detail := de\<rparr>"
    and o: "outcome (generate_digest w eps (period_start g) (period_end g) True) = Inr r"
  shows "\<exists>s2 st' de'.
           digest_generating eng w g3 eps s =
             digest_stored eng
               (g\<lparr>digest.status := ''processing'', digest.processing_step := st',
                   digest.processing_detail := de'\<rparr>) r (length eps) s2
               (synthesis_calls (generate_digest w eps (period_start g) (period_end g) True))
               (image_calls (generate_digest w eps (period_start g) (period_end g) True)) \<and>
           store s2 = put_digest
             (g\<lparr>digest.status := ''processing'', digest.processing_step := st',
                 digest.processing_detail := de'\<rparr>) dd"
proof -
  let ?g1 = "update_digest_progress g3 ''generating_content''
                 (''Claude is synthesising insights from '' @ str_nat (length eps) @ '' episodes...'')"
  let ?s1 = "commit (put_digest ?g1 (store s)) s"
  let ?gen = "generate_digest w eps (period_start g) (period_end g) True"
  have p: "period_start ?g1 = period_start g" "period_end ?g1 = period_end g"
    by (simp_all add: g update_digest_progress_def)
  obtain g2 s2 where rp: "report (reported ?gen) ?g1 ?s1 = (g2, s2)"
    by (cases "report (reported ?gen) ?g1 ?s1") auto
  have st: "store ?s1 = put_digest ?g1 dd"
    using s by (simp add: commit_def put_digest_put_digest)
  from report_result[OF st rp] obtain st' de' where
    1: "store s2 = put_digest g2 dd"
    and 2: "g2 = ?g1\<lparr>digest.processing_step := st', digest.processing_detail := de'\<rparr>"
    by blast
  from 2 have g2: "g2 = g\<lparr>digest.status := ''processing'', digest.processing_step := st',
                   digest.processing_detail := de'\<rparr>"
    by (simp add: g update_digest_progress_def)
  have "digest_generating eng w g3 eps s =
          digest_stored eng g2 r (length eps) s2 (synthesis_calls ?gen) (image_calls ?gen)"
    unfolding digest_generating_def Let_def p rp o by simp
  with 1 show ?thesis unfolding g2 by blast
qed


lemma digest_generating_refused:
  assumes s: "store s = put_digest g3 dd"
    and g: "g3 = g\<lparr>digest.status := ''processing'', digest.processing_step := st,
                   digest.processing_detail := de\<rparr>"
    and o: "outcome (generate_digest w eps (period_start g) (period_end g) True) = Inr r"
    and t: "text_column eng (DigestResult.summary r) = Inl msg"
  shows "\<exists>st' de'.
           store (digest_session (digest_generating eng w g3 eps s)) =
             put_digest (g\<lparr>digest.status := ''processing'', digest.processing_step := st',
                           digest.processing_detail := de'\<rparr>) dd \<and>
           digest_raised (digest_generating eng w g3 eps s) = Some (pending_rollback eng msg)"
proof -
  from digest_generating_reported[OF s g o, of eng] obtain s2 st' de' where
    1: "digest_generating eng w g3 eps s =
             digest_stored eng
               (g\<lparr>digest.status := ''processing'', digest.processing_step := st',
                   digest.processing_detail := de'\<rparr>) r (length eps) s2
               (synthesis_calls (generate_digest w eps (period_start g) (period_end g) True))
               (image_calls (generate_digest w eps (period_start g) (period_end g) True))"
    and 2: "store s2 = put_digest
             (g\<lparr>digest.status := ''processing'', digest.processing_step := st',
                 digest.processing_detail := de'\<rparr>) dd"
    by blast
  have "store (digest_session (digest_generating eng w g3 eps s)) =
             put_digest (g\<lparr>digest.status := ''processing'', digest.processing_step := st',
                           digest.processing_detail := de'\<rparr>) dd \<and>
        digest_raised (digest_generating eng w g3 eps s) = Some (pending_rollback eng msg)"
    unfolding 1 digest_stored_def t using 2 by simp
  then show ?thesis by blast
qed

lemma digest_generating_calls:
  "synthesis_inputs (digest_generating eng w g eps s) =
     synthesis_calls (generate_digest w eps (period_start g) (period_end g) True) \<and>
   image_prompts (digest_generating eng w g eps s) =
     image_calls (generate_digest w eps (period_start g) (period_end g) True)"
proof -
  let ?g1 = "update_digest_progress g ''generating_content''
                 (''Claude is synthesising insights from '' @ str_nat (length eps) @ '' episodes...'')"
  let ?s1 = "commit (put_digest ?g1 (store s)) s"
  let ?gen = "generate_digest w eps (period_start g) (period_end g) True"
  have p: "period_start ?g1 = period_start g" "period_end ?g1 = period_end g"
    by (simp_all add: update_digest_progress_def)
  obtain g2 s2 where rp: "report (reported ?gen) ?g1 ?s1 = (g2, s2)"
    by (cases "report (reported ?gen) ?g1 ?s1") auto
  have c: "synthesis_inputs (digest_stored eng g2 r n s2 a b) = a \<and>
           image_prompts (digest_stored eng g2 r n s2 a b) = b" for r n a b
    by (cases "text_column eng (DigestResult.summary r)") (simp_all add: digest_stored_def)
  show ?thesis
    unfolding digest_generating_def Let_def p rp
    by (cases "outcome ?gen") (simp_all add: digest_failed_def Let_def c)
qed

lemma process_digest_generates:
  assumes "find (\<lambda>x. digest.id x = did) (digests d) = Some g"
    and "with_analysis d (qualifying eng g d) \<noteq> []"
  shows "\<exists>g3 s3 st de.
           process_digest eng w did d = digest_generating eng w g3 (projected d (qualifying eng g d)) s3 \<and>
           store s3 = put_digest g3
             (d\<lparr>digest_episodes := digest_episodes d @ links did d (qualifying eng g d)\<rparr>) \<and>
           g3 = g\<lparr>digest.status := ''processing'', digest.processing_step := st,
                   digest.processing_detail := de\<rparr>"
proof -
  from process_digest_collects[OF assms(1), of eng w]
  obtain g3 s3 st de where
    p: "process_digest eng w did d = digest_collected eng w g3 (projected d (qualifying eng g d)) s3"
    and s: "store s3 = put_digest g3
             (d\<lparr>digest_episodes := digest_episodes d @ links did d (qualifying eng g d)\<rparr>)"
    and g: "g3 = g\<lparr>digest.status := ''processing'', digest.processing_step := st,
                   digest.processing_detail := de\<rparr>"
    by blast
  have ne: "projected d (qualifying eng g d) \<noteq> []"
    using assms(2) by (simp add: projected_Nil_iff)
  let ?s4 = "commit (put_digest g3 (store s3)) s3"
  have "digest_collected eng w g3 (projected d (qualifying eng g d)) s3 =
          digest_generating eng w g3 (projected d (qualifying eng g d)) ?s4"
    using ne by (simp add: digest_collected_def Let_def)
  moreover have "store ?s4 = put_digest g3
             (d\<lparr>digest_episodes := digest_episodes d @ links did d (qualifying eng g d)\<rparr>)"
    using s by (simp add: commit_def put_digest_put_digest)
  ultimately show ?thesis using p g by metis
qed

lemma mset_links_answer:
  assumes "\<And>rows. mset (answer eng rows) = mset rows"
  shows "mset (links did d (qualifying eng g d)) = mset (links did d (matching g d))"
proof -
  have "mset (with_analysis d (answer eng (matching g d))) = mset (with_analysis d (matching g d))"
    unfolding with_analysis_def mset_filter assms ..
  then have "image_mset (\<lambda>e. \<lparr>digest_id = did, digest_episode.episode_id = episode.id e\<rparr>)
          (mset (with_analysis d (answer eng (matching g d)))) =
        image_mset (\<lambda>e. \<lparr>digest_id = did, digest_episode.episode_id = episode.id e\<rparr>)
          (mset (with_analysis d (matching g d)))"
    by (rule arg_cong)
  then show ?thesis
    unfolding links_def qualifying_def mset_map .
qed

text \<open>
  C10. When the synthesis raises after the collection, the stored digest is the original
  one with the status failed, no step, no detail and the summary of the error, so its
  episode count is what it was. The links created during the collection are stored behind
  the links that were there, in the order in which the engine answered the query: up to
  this order they are the links of the matching episodes of the table that have an
  analysis, and there is at least one. The episodes are untouched.
\<close>

theorem synthesis_failure_keeps_links:
  assumes "find (\<lambda>x. digest.id x = did) (digests d) = Some g"
    and "with_analysis d (qualifying eng g d) \<noteq> []"
    and "outcome (generate_digest w (projected d (qualifying eng g d))
           (period_start g) (period_end g) True) = Inl msg"
    and "\<And>rows. mset (answer eng rows) = mset rows"
  shows "digest_raised (process_digest eng w did d) = Some msg \<and>
         find (\<lambda>x. digest.id x = did)
           (digests (store (digest_session (process_digest eng w did d)))) =
           Some (g\<lparr>digest.status := ''failed'', digest.processing_step := None,
                   digest.processing_detail := None,
                   digest.summary := Some (''Error: '' @ msg)\<rparr>) \<and>
         digest_episodes (store (digest_session (process_digest eng w did d))) =
           digest_episodes d @ links did d (qualifying eng g d) \<and>
         mset (digest_episodes (store (digest_session (process_digest eng w did d)))) =
           mset (digest_episodes d) + mset (links did d (matching g d)) \<and>
         links did d (matching g d) \<noteq> [] \<and>
         episodes (store (digest_session (process_digest eng w did d))) = episodes d"
proof -
  from process_digest_generates[OF assms(1,2), of w]
  obtain g3 s3 st de where
    p: "process_digest eng w did d = digest_generating eng w g3 (projected d (qualifying eng g d)) s3"
    and s: "store s3 = put_digest g3
             (d\<lparr>digest_episodes := digest_episodes d @ links did d (qualifying eng g d)\<rparr>)"
    and g: "g3 = g\<lparr>digest.status := ''processing'', digest.processing_step := st,
                   digest.processing_detail := de\<rparr>"
    by blast
  let ?dd = "d\<lparr>digest_episodes := digest_episodes d @ links did d (qualifying eng g d)\<rparr>"
  let ?gf = "g\<lparr>digest.status := ''failed'', digest.processing_step := None,
                   digest.processing_detail := None,
                   digest.summary := Some (''Error: '' @ msg)\<rparr>"
  from digest_generating_failure[OF s g assms(3)]
  have st: "store (digest_session (process_digest eng w did d)) = put_digest ?gf ?dd"
    and r: "digest_raised (process_digest eng w did d) = Some msg"
    by (simp_all add: p)
  have i: "digest.id ?gf = did"
    using find_digest_id[OF assms(1)] by simp
  have f: "find (\<lambda>x. digest.id x = did) (digests ?dd) = Some g"
    using assms(1) by simp
  have l: "links did d (qualifying eng g d) \<noteq> []"
    using assms(2) by (simp add: links_def)
  have m: "mset (links did d (qualifying eng g d)) = mset (links did d (matching g d))"
    using assms(4) by (rule mset_links_answer)
  from l m have l': "links did d (matching g d) \<noteq> []"
    by (metis mset_zero_iff)
  have de: "digest_episodes (store (digest_session (process_digest eng w did d))) =
      digest_episodes d @ links did d (qualifying eng g d)"
    unfolding st by simp
  have me: "mset (digest_episodes (store (digest_session (process_digest eng w did d)))) =
      mset (digest_episodes d) + mset (links did d (matching g d))"
    unfolding de mset_append m ..
  have fi: "find (\<lambda>x. digest.id x = did)
           (digests (store (digest_session (process_digest eng w did d)))) = Some ?gf"
    unfolding st by (rule find_put_digest[OF f i])
  have ep: "episodes (store (digest_session (process_digest eng w did d))) = episodes d"
    unfolding st by simp
  from r fi de me l' ep show ?thesis by (intro conjI)
qed

lemma generate_digest_raises:
  "eps \<noteq> [] \<Longrightarrow> complete w eps a b = Inl msg \<Longrightarrow>
   outcome (generate_digest w eps a b True) = Inl msg"
  by (simp add: generate_digest_def)


lemma example_find: "find (\<lambda>x. digest.id x = 1) (digests example_db) = Some example_digest"
  by (simp add: example_db_def example_digest_def)

lemma example_qualifying:
  "qualifying example_engine example_digest example_db = [example_episode]"
  by (simp add: qualifying_def matching_def in_period_def podcast_filter_def example_db_def
      example_digest_def example_episode_def example_engine_def)

lemma example_with_analysis:
  "with_analysis example_db (qualifying example_engine example_digest example_db) = [example_episode]"
  unfolding example_qualifying
  by (simp add: with_analysis_def example_db_def example_episode_def)

lemma example_links:
  "links 1 example_db (qualifying example_engine example_digest example_db) =
     [\<lparr>digest_id = 1, digest_episode.episode_id = 7\<rparr>]"
  unfolding links_def example_with_analysis
  by (simp add: example_episode_def)

lemma paired_find: "find (\<lambda>x. digest.id x = 1) (digests paired_db) = Some example_digest"
  by (simp add: paired_db_def example_db_def example_digest_def)

lemma paired_qualifying:
  "qualifying example_engine example_digest paired_db =
     [example_episode\<lparr>episode.id := 8\<rparr>, example_episode]"
  by (simp add: qualifying_def matching_def in_period_def podcast_filter_def paired_db_def
      example_db_def example_digest_def example_episode_def example_engine_def)

lemma paired_with_analysis:
  "with_analysis paired_db (qualifying example_engine example_digest paired_db) =
     [example_episode\<lparr>episode.id := 8\<rparr>, example_episode]"
  unfolding paired_qualifying
  by (simp add: with_analysis_def paired_db_def example_db_def example_episode_def)

lemma paired_links:
  "links 1 paired_db (qualifying example_engine example_digest paired_db) =
     [\<lparr>digest_id = 1, digest_episode.episode_id = 8\<rparr>,
      \<lparr>digest_id = 1, digest_episode.episode_id = 7\<rparr>]"
  unfolding links_def paired_with_analysis
  by (simp add: example_episode_def)

theorem synthesis_failure_keeps_links_witness:
  "digest_raised (process_digest example_engine raising_world 1 paired_db) = Some ''overloaded'' \<and>
   find (\<lambda>x. digest.id x = 1)
     (digests (store (digest_session (process_digest example_engine raising_world 1 paired_db)))) =
     Some (example_digest\<lparr>digest.status := ''failed'',
             digest.summary := Some ''Error: overloaded''\<rparr>) \<and>
   episode_count (example_digest\<lparr>digest.status := ''failed'',
             digest.summary := Some ''Error: overloaded''\<rparr>) = 0 \<and>
   digest_episodes (store (digest_session (process_digest example_engine raising_world 1 paired_db))) =
     [\<lparr>digest_id = 1, digest_episode.episode_id = 8\<rparr>,
      \<lparr>digest_id = 1, digest_episode.episode_id = 7\<rparr>]"
proof -
  have ne: "with_analysis paired_db (qualifying example_engine example_digest paired_db) \<noteq> []"
    by (simp add: paired_with_analysis)
  then have pe: "projected paired_db (qualifying example_engine example_digest paired_db) \<noteq> []"
    by (simp add: projected_Nil_iff)
  have o: "outcome (generate_digest raising_world
      (projected paired_db (qualifying example_engine example_digest paired_db))
      (period_start example_digest) (period_end example_digest) True) = Inl ''overloaded''"
    by (rule generate_digest_raises[OF pe]) (simp add: raising_world_def)
  have a: "mset (answer example_engine rows) = mset rows" for rows
    by (simp add: example_engine_def)
  have g: "example_digest\<lparr>digest.status := ''failed'', digest.processing_step := None,
                   digest.processing_detail := None,
                   digest.summary := Some (''Error: '' @ ''overloaded'')\<rparr> =
           example_digest\<lparr>digest.status := ''failed'',
             digest.summary := Some ''Error: overloaded''\<rparr>"
    by (simp add: example_digest_def)
  have c: "episode_count (example_digest\<lparr>digest.status := ''failed'',
             digest.summary := Some ''Error: overloaded''\<rparr>) = 0"
    by (simp add: example_digest_def)
  have l: "digest_episodes paired_db = []"
    by (simp add: paired_db_def example_db_def)
  note t = synthesis_failure_keeps_links[OF paired_find ne o a]
  from t have 1: "digest_raised (process_digest example_engine raising_world 1 paired_db) =
      Some ''overloaded''"
    by (elim conjE)
  from t have 2: "find (\<lambda>x. digest.id x = 1)
     (digests (store (digest_session (process_digest example_engine raising_world 1 paired_db)))) =
     Some (example_digest\<lparr>digest.status := ''failed'', digest.processing_step := None,
                   digest.processing_detail := None,
                   digest.summary := Some (''Error: '' @ ''overloaded'')\<rparr>)"
    by (elim conjE)
  from t have 3: "digest_episodes (store (digest_session
        (process_digest example_engine raising_world 1 paired_db))) =
      digest_episodes paired_db @
        links 1 paired_db (qualifying example_engine example_digest paired_db)"
    by (elim conjE)
  from 1 2[unfolded g] c 3[unfolded l paired_links] show ?thesis by simp
qed

lemma digest_image_no_image:
  assumes "\<forall>p. generate_image w p = None"
  shows "outcome (digest_image w eps (JObj kv) True) =
           digest_result (JObj kv) None
             (if truthy (dict_get kv ''image_description'' JNull)
              then Some (compose_prompt w (dict_get kv ''image_description'' JNull)) else None) \<and>
         image_calls (digest_image w eps (JObj kv) True) =
           (if truthy (dict_get kv ''image_description'' JNull)
            then [compose_prompt w (dict_get kv ''image_description'' JNull)] else [])"
  using assms by (simp add: digest_image_def py_get_def)

lemma generate_digest_no_image:
  assumes "eps \<noteq> []" and "complete w eps a b = Inr response"
    and "parse_json_response (loads w) response = Inr (JObj kv)"
    and "\<forall>p. generate_image w p = None"
  shows "outcome (generate_digest w eps a b True) =
           digest_result (JObj kv) None
             (if truthy (dict_get kv ''image_description'' JNull)
              then Some (compose_prompt w (dict_get kv ''image_description'' JNull)) else None) \<and>
         image_calls (generate_digest w eps a b True) =
           (if truthy (dict_get kv ''image_description'' JNull)
            then [compose_prompt w (dict_get kv ''image_description'' JNull)] else [])"
proof -
  have "generate_digest w eps a b True = digest_image w eps (JObj kv) True"
    using assms(1-3) by (simp add: generate_digest_def)
  with digest_image_no_image[OF assms(4), of eps kv] show ?thesis by simp
qed

lemma process_digest_answered:
  assumes "find (\<lambda>x. digest.id x = did) (digests d) = Some g"
    and "with_analysis d (qualifying eng g d) \<noteq> []"
    and "complete w (projected d (qualifying eng g d)) (period_start g) (period_end g) = Inr response"
    and "parse_json_response (loads w) response = Inr (JObj kv)"
    and "\<forall>p. generate_image w p = None"
  shows "\<exists>g3 s3 st de.
           process_digest eng w did d =
             digest_generating eng w g3 (projected d (qualifying eng g d)) s3 \<and>
           store s3 = put_digest g3
             (d\<lparr>digest_episodes := digest_episodes d @ links did d (qualifying eng g d)\<rparr>) \<and>
           g3 = g\<lparr>digest.status := ''processing'', digest.processing_step := st,
                   digest.processing_detail := de\<rparr> \<and>
           outcome (generate_digest w (projected d (qualifying eng g d))
               (period_start g) (period_end g) True) =
             Inr \<lparr>DigestResult.summary = dict_get kv ''summary'' (JStr []),
                  common_themes = dict_get kv ''common_themes'' (JArr []),
                  trends = dict_get kv ''trends'' (JArr []),
                  predictions = dict_get kv ''predictions'' (JArr []),
                  recommendations = dict_get kv ''recommendations'' (JArr []),
                  key_advice = dict_get kv ''key_advice'' (JArr []),
                  action_items = dict_get kv ''action_items'' (JArr []),
                  image_url = None,
                  image_prompt =
                    (if truthy (dict_get kv ''image_description'' JNull)
                     then Some (compose_prompt w (dict_get kv ''image_description'' JNull))
                     else None)\<rparr> \<and>
           image_prompts (process_digest eng w did d) =
             (if truthy (dict_get kv ''image_description'' JNull)
              then [compose_prompt w (dict_get kv ''image_description'' JNull)] else [])"
proof -
  let ?eps = "projected d (qualifying eng g d)"
  let ?ip = "if truthy (dict_get kv ''image_description'' JNull)
             then Some (compose_prompt w (dict_get kv ''image_description'' JNull)) else None"
  from process_digest_generates[OF assms(1,2), of w]
  obtain g3 s3 st de where
    p: "process_digest eng w did d = digest_generating eng w g3 ?eps s3"
    and s: "store s3 = put_digest g3
             (d\<lparr>digest_episodes := digest_episodes d @ links did d (qualifying eng g d)\<rparr>)"
    and g: "g3 = g\<lparr>digest.status := ''processing'', digest.processing_step := st,
                   digest.processing_detail := de\<rparr>"
    by blast
  have ne: "?eps \<noteq> []"
    using assms(2) by (simp add: projected_Nil_iff)
  from generate_digest_no_image[OF ne assms(3,4,5)]
  have o: "outcome (generate_digest w ?eps (period_start g) (period_end g) True) =
          digest_result (JObj kv) None ?ip"
    and c: "image_calls (generate_digest w ?eps (period_start g) (period_end g) True) =
           (if truthy (dict_get kv ''image_description'' JNull)
            then [compose_prompt w (dict_get kv ''image_description'' JNull)] else [])"
    by blast+
  have o': "outcome (generate_digest w ?eps (period_start g) (period_end g) True) =
      Inr \<lparr>DigestResult.summary = dict_get kv ''summary'' (JStr []),
                  common_themes = dict_get kv ''common_themes'' (JArr []),
                  trends = dict_get kv ''trends'' (JArr []),
                  predictions = dict_get kv ''predictions'' (JArr []),
                  recommendations = dict_get kv ''recommendations'' (JArr []),
                  key_advice = dict_get kv ''key_advice'' (JArr []),
                  action_items = dict_get kv ''action_items'' (JArr []),
                  image_url = None, image_prompt = ?ip\<rparr>"
    unfolding o by (simp add: digest_result_def)
  have pg: "period_start g3 = period_start g" "period_end g3 = period_end g"
    by (simp_all add: g)
  have ic: "image_prompts (process_digest eng w did d) =
      image_calls (generate_digest w ?eps (period_start g) (period_end g) True)"
    using digest_generating_calls[of eng w g3 ?eps s3] by (simp add: p pg)
  from p s g o' ic[unfolded c] show ?thesis by blast
qed



lemma refused_summary_leaves_processing:
  assumes "find (\<lambda>x. digest.id x = did) (digests d) = Some g"
    and "with_analysis d (qualifying eng g d) \<noteq> []"
    and "complete w (projected d (qualifying eng g d)) (period_start g) (period_end g) = Inr response"
    and "parse_json_response (loads w) response = Inr (JObj kv)"
    and "\<forall>p. generate_image w p = None"
    and "text_column eng (dict_get kv ''summary'' (JStr [])) = Inl msg"
  shows "digest_raised (process_digest eng w did d) = Some (pending_rollback eng msg) \<and>
         (\<exists>st de. find (\<lambda>x. digest.id x = did)
            (digests (store (digest_session (process_digest eng w did d)))) =
            Some (g\<lparr>digest.status := ''processing'', digest.processing_step := st,
                    digest.processing_detail := de\<rparr>))"
proof -
  let ?eps = "projected d (qualifying eng g d)"
  let ?dd = "d\<lparr>digest_episodes := digest_episodes d @ links did d (qualifying eng g d)\<rparr>"
  from process_digest_answered[OF assms(1-5)]
  obtain g3 s3 st de r where
    p: "process_digest eng w did d = digest_generating eng w g3 ?eps s3"
    and s: "store s3 = put_digest g3 ?dd"
    and g: "g3 = g\<lparr>digest.status := ''processing'', digest.processing_step := st,
                   digest.processing_detail := de\<rparr>"
    and o: "outcome (generate_digest w ?eps (period_start g) (period_end g) True) = Inr r"
    and rs: "DigestResult.summary r = dict_get kv ''summary'' (JStr [])"
    by fastforce
  have t: "text_column eng (DigestResult.summary r) = Inl msg"
    unfolding rs by (rule assms(6))
  from digest_generating_refused[OF s g o t] obtain st' de' where
    1: "store (digest_session (process_digest eng w did d)) =
          put_digest (g\<lparr>digest.status := ''processing'', digest.processing_step := st',
                        digest.processing_detail := de'\<rparr>) ?dd"
    and 2: "digest_raised (process_digest eng w did d) = Some (pending_rollback eng msg)"
    unfolding p by blast
  have i: "digest.id (g\<lparr>digest.status := ''processing'', digest.processing_step := st',
                        digest.processing_detail := de'\<rparr>) = did"
    using find_digest_id[OF assms(1)] by simp
  have f: "find (\<lambda>x. digest.id x = did) (digests ?dd) = Some g"
    using assms(1) by simp
  have "find (\<lambda>x. digest.id x = did)
            (digests (store (digest_session (process_digest eng w did d)))) =
        Some (g\<lparr>digest.status := ''processing'', digest.processing_step := st',
                 digest.processing_detail := de'\<rparr>)"
    unfolding 1 by (rule find_put_digest[OF f i])
  with 2 show ?thesis by blast
qed

lemma refused_summary_example:
  "digest_raised (process_digest example_engine listing_world 1 example_db) =
     Some ''Session rolled back. Original exception was: Error binding parameter'' \<and>
   map_option digest.status
     (find (\<lambda>x. digest.id x = 1)
        (digests (store (digest_session
           (process_digest example_engine listing_world 1 example_db))))) =
     Some ''processing''"
proof -
  let ?kv = "[(''summary'', JArr [JStr ''A calm week.''])]"
  have ne: "with_analysis example_db (qualifying example_engine example_digest example_db) \<noteq> []"
    by (simp add: example_with_analysis)
  have c: "complete listing_world
      (projected example_db (qualifying example_engine example_digest example_db))
      (period_start example_digest) (period_end example_digest) = Inr ''{...}''"
    by (simp add: listing_world_def imageless_world_def)
  have p: "parse_json_response (loads listing_world) ''{...}'' = Inr (JObj ?kv)"
    by (simp add: parse_json_response_def listing_world_def)
  have i: "\<forall>p. generate_image listing_world p = None"
    by (simp add: listing_world_def imageless_world_def)
  have tc: "text_column example_engine (dict_get ?kv ''summary'' (JStr [])) =
      Inl ''Error binding parameter''"
    by (simp add: text_column_def dict_get_def example_engine_def)
  from refused_summary_leaves_processing[OF example_find ne c p i tc]
  obtain st de where
    r: "digest_raised (process_digest example_engine listing_world 1 example_db) =
          Some (pending_rollback example_engine ''Error binding parameter'')"
    and f: "find (\<lambda>x. digest.id x = 1)
            (digests (store (digest_session
               (process_digest example_engine listing_world 1 example_db)))) =
            Some (example_digest\<lparr>digest.status := ''processing'', digest.processing_step := st,
                    digest.processing_detail := de\<rparr>)"
    by blast
  from r f show ?thesis by (simp add: example_engine_def)
qed

lemma parse_json_response_nothing:
  assumes "ld response = JSONDecodeError"
    and "\<forall>g. fenced_json response = Some g \<longrightarrow> ld g = JSONDecodeError"
    and "\<forall>g. brace_span response = Some g \<longrightarrow> ld g = JSONDecodeError"
  shows "parse_json_response ld response = Inr (JObj [])"
proof -
  have l: "parse_last ld response = Inr (JObj [])"
    using assms(3) by (cases "brace_span response") (simp_all add: parse_last_def)
  show ?thesis
    using assms(1,2) l by (cases "fenced_json response") (simp_all add: parse_json_response_def)
qed

lemma generate_digest_unparseable:
  assumes "eps \<noteq> []" and "complete w eps a b = Inr response"
    and "loads w response = JSONDecodeError"
    and "\<forall>g. fenced_json response = Some g \<longrightarrow> loads w g = JSONDecodeError"
    and "\<forall>g. brace_span response = Some g \<longrightarrow> loads w g = JSONDecodeError"
  shows "generate_digest w eps a b want_image =
           \<lparr>outcome = Inr \<lparr>summary = JStr [], common_themes = JArr [], trends = JArr [],
                             predictions = JArr [], recommendations = JArr [],
                             key_advice = JArr [], action_items = JArr [],
                             image_url = None, image_prompt = None\<rparr>,
            reported = [], synthesis_calls = [eps], image_calls = []\<rparr>"
proof -
  have "generate_digest w eps a b want_image = digest_image w eps (JObj []) want_image"
    using assms(1,2) parse_json_response_nothing[OF assms(3,4,5)]
    by (simp add: generate_digest_def)
  then show ?thesis
    by (simp add: digest_image_def py_get_def dict_get_def truthy_def digest_result_def)
qed

text \<open>
  C3 (amended). When \<open>json.loads\<close> rejects the response, the content of its fenced block
  and its span of braces, the synthesis does not raise: it returns a result whose summary
  is the empty string, whose lists are empty and which has no image; the text of the
  response is not in it, and the image service is not called.
\<close>

theorem unparseable_response_gives_empty_digest:
  assumes "eps \<noteq> []" and "complete w eps a b = Inr response"
    and "loads w response = JSONDecodeError"
    and "\<forall>g. fenced_json response = Some g \<longrightarrow> loads w g = JSONDecodeError"
    and "\<forall>g. brace_span response = Some g \<longrightarrow> loads w g = JSONDecodeError"
  shows "generate_digest w eps a b want_image =
           \<lparr>outcome = Inr \<lparr>summary = JStr [], common_themes = JArr [], trends = JArr [],
                             predictions = JArr [], recommendations = JArr [],
                             key_advice = JArr [], action_items = JArr [],
                             image_url = None, image_prompt = None\<rparr>,
            reported = [], synthesis_calls = [eps], image_calls = []\<rparr>"
  using assms by (rule generate_digest_unparseable)

lemma example_projected:
  "projected example_db (qualifying example_engine example_digest example_db) \<noteq> []"
  by (simp add: projected_Nil_iff example_with_analysis)

theorem unparseable_response_gives_empty_digest_witness:
  "complete rambling_world (projected example_db (qualifying example_engine example_digest example_db)) 0 1000 =
     Inr ''Sorry, no digest today.'' \<and>
   loads rambling_world ''Sorry, no digest today.'' = JSONDecodeError \<and>
   fenced_json ''Sorry, no digest today.'' = None \<and>
   brace_span ''Sorry, no digest today.'' = None \<and>
   generate_digest rambling_world
     (projected example_db (qualifying example_engine example_digest example_db)) 0 1000 True =
     \<lparr>outcome = Inr \<lparr>summary = JStr [], common_themes = JArr [], trends = JArr [],
                       predictions = JArr [], recommendations = JArr [],
                       key_advice = JArr [], action_items = JArr [],
                       image_url = None, image_prompt = None\<rparr>,
      reported = [],
      synthesis_calls = [projected example_db (qualifying example_engine example_digest example_db)],
      image_calls = []\<rparr>"
proof -
  have c: "complete rambling_world (projected example_db (qualifying example_engine example_digest example_db))
      0 1000 = Inr ''Sorry, no digest today.''"
    by (simp add: rambling_world_def)
  have l: "loads rambling_world ''Sorry, no digest today.'' = JSONDecodeError"
    by (simp add: rambling_world_def)
  have f: "fenced_json ''Sorry, no digest today.'' = None"
    by (simp add: fenced_at_def startswith_def)
  have b: "brace_span ''Sorry, no digest today.'' = None"
    by (simp add: brace_span_def)
  have lf: "\<forall>g. fenced_json ''Sorry, no digest today.'' = Some g \<longrightarrow>
      loads rambling_world g = JSONDecodeError"
    by (simp add: rambling_world_def)
  have lb: "\<forall>g. brace_span ''Sorry, no digest today.'' = Some g \<longrightarrow>
      loads rambling_world g = JSONDecodeError"
    by (simp add: rambling_world_def)
  from unparseable_response_gives_empty_digest[OF example_projected c l lf lb, of True] c l f b
  show ?thesis by simp
qed

theorem unparseable_response_summary_counterexample:
  "complete rambling_world (projected example_db (qualifying example_engine example_digest example_db)) 0 1000 =
     Inr ''Sorry, no digest today.'' \<and>
   outcome (generate_digest rambling_world
     (projected example_db (qualifying example_engine example_digest example_db)) 0 1000 True) =
     Inr \<lparr>summary = JStr [], common_themes = JArr [], trends = JArr [],
           predictions = JArr [], recommendations = JArr [],
           key_advice = JArr [], action_items = JArr [],
           image_url = None, image_prompt = None\<rparr>"
proof -
  have c: "complete rambling_world (projected example_db (qualifying example_engine example_digest example_db))
      0 1000 = Inr ''Sorry, no digest today.''"
    by (simp add: rambling_world_def)
  have l: "loads rambling_world ''Sorry, no digest today.'' = JSONDecodeError"
    by (simp add: rambling_world_def)
  have lf: "\<forall>g. fenced_json ''Sorry, no digest today.'' = Some g \<longrightarrow>
      loads rambling_world g = JSONDecodeError"
    by (simp add: rambling_world_def)
  have lb: "\<forall>g. brace_span ''Sorry, no digest today.'' = Some g \<longrightarrow>
      loads rambling_world g = JSONDecodeError"
    by (simp add: rambling_world_def)
  from generate_digest_unparseable[OF example_projected c l lf lb, of True] c
  show ?thesis by simp
qed

section \<open>Regenerating the image\<close>

lemma name_char_terminators: "\<not> name_char CHR ''.''" "\<not> name_char CHR '',''"
  by (simp_all add: name_char_def word_char_def isspace_def)

lemma style_at_match:
  assumes "name \<noteq> []" and "list_all name_char name" and "t = CHR ''.'' \<or> t = CHR '',''"
  shows "style_at (''style of '' @ name @ t # rest) = Some rest"
proof -
  have t: "\<not> name_char t"
    using assms(3) name_char_terminators by auto
  have "dropWhile name_char (name @ t # rest) = t # rest"
    using assms(2) t by (simp add: dropWhile_append2 list_all_iff)
  then show ?thesis
    using assms(1,3) by (simp add: style_at_def startswith_def)
qed

lemma re_sub_style_skip:
  "(\<forall>i < length pre. style_at (drop i (pre @ s)) = None) \<Longrightarrow>
   re_sub_style new (pre @ s) = pre @ re_sub_style new s"
proof (induction pre)
  case Nil
  show ?case by simp
next
  case (Cons c pre)
  from Cons.prems have h: "style_at (c # pre @ s) = None"
    by (metis append_Cons drop0 length_greater_0_conv list.discI)
  have "\<forall>i < length pre. style_at (drop i (pre @ s)) = None"
  proof (intro allI impI)
    fix i assume "i < length pre"
    then have "Suc i < length (c # pre)" by simp
    with Cons.prems have "style_at (drop (Suc i) ((c # pre) @ s)) = None" by blast
    then show "style_at (drop i (pre @ s)) = None" by simp
  qed
  from Cons.IH[OF this] h show ?case by simp
qed

lemma re_sub_style_no_match:
  "(\<forall>i < length s. style_at (drop i s) = None) \<Longrightarrow> re_sub_style new s = s"
  using re_sub_style_skip[of s "[]" new] by simp

lemma re_sub_style_one_match:
  assumes "name \<noteq> []" and "list_all name_char name" and "t = CHR ''.'' \<or> t = CHR '',''"
    and "\<forall>i < length pre. style_at (drop i (pre @ ''style of '' @ name @ t # rest)) = None"
    and "\<forall>i < length rest. style_at (drop i rest) = None"
  shows "re_sub_style new (pre @ ''style of '' @ name @ t # rest) =
           pre @ ''style of '' @ new @ ''.'' @ rest"
proof -
  have "re_sub_style new (pre @ ''style of '' @ name @ t # rest) =
          pre @ re_sub_style new (''style of '' @ name @ t # rest)"
    using assms(4) by (rule re_sub_style_skip)
  also have "re_sub_style new (''style of '' @ name @ t # rest) =
          ''style of '' @ new @ ''.'' @ re_sub_style new rest"
    using style_at_match[OF assms(1-3), of rest] by simp
  also have "re_sub_style new rest = rest"
    using assms(5) by (rule re_sub_style_no_match)
  finally show ?thesis .
qed


lemma regenerate_image_no_prompt:
  assumes "find (\<lambda>x. digest.id x = did) (digests d) = Some g"
    and "digest.image_prompt g = None \<or> digest.image_prompt g = Some []"
  shows "regenerate_image w did d = http_failure 400 ''No image prompt available'' d []"
  using assms by (auto simp: regenerate_image_def)

lemma regenerate_image_success:
  assumes "find (\<lambda>x. digest.id x = did) (digests d) = Some g"
    and "digest.image_prompt g = Some prompt" and "prompt \<noteq> []"
    and "generate_image w (re_sub_style (ARTISTS ! (choice w mod length ARTISTS)) prompt) = Some url"
    and "url \<noteq> []"
  shows "regenerate_image w did d =
           \<lparr>result = Inr (url, re_sub_style (ARTISTS ! (choice w mod length ARTISTS)) prompt),
            stored = put_digest (g\<lparr>digest.image_url := Some url,
                digest.image_prompt :=
                  Some (re_sub_style (ARTISTS ! (choice w mod length ARTISTS)) prompt)\<rparr>) d,
            committed = [put_digest (g\<lparr>digest.image_url := Some url,
                digest.image_prompt :=
                  Some (re_sub_style (ARTISTS ! (choice w mod length ARTISTS)) prompt)\<rparr>) d],
            background_tasks = [],
            requested = [re_sub_style (ARTISTS ! (choice w mod length ARTISTS)) prompt]\<rparr>"
  using assms by (simp add: regenerate_image_def Let_def)

lemma chosen_in_ARTISTS: "ARTISTS ! (k mod length ARTISTS) \<in> set ARTISTS"
  by (rule nth_mem) (simp add: ARTISTS_def)

lemma palette_names:
  "palette =
     [''Wassily Kandinsky'', ''Vincent van Gogh'', ''Salvador Dali'', ''Katsushika Hokusai'',
      ''Gustav Klimt'', ''Jackson Pollock'', ''Egon Schiele'', ''J.M.W. Turner'',
      ''Roy Lichtenstein'', ''Edvard Munch'', ''Georges Seurat'', ''Hieronymus Bosch'',
      ''Frida Kahlo'', ''Mark Rothko'', ''Edward Hopper'', ''Utagawa Hiroshige'',
      ''Paul Gauguin'', ''Umberto Boccioni'', ''Alphonse Mucha'', ''Kazimir Malevich'',
      ''Kandinsky'', ''Monet'', ''Picasso'', ''van Gogh'', ''Dali'', ''Klee'']"
  by (simp add: palette_def digest_ARTISTS_def ARTISTS_def)

lemma palette_name_chars:
  assumes "name \<in> set palette" and "name \<noteq> ''J.M.W. Turner''"
  shows "name \<noteq> [] \<and> list_all name_char name"
proof -
  have "list_all (\<lambda>n. n = ''J.M.W. Turner'' \<or> (n \<noteq> [] \<and> list_all name_char n)) palette"
    unfolding palette_names
    by (simp add: name_char_def word_char_def isspace_def)
  with assms show ?thesis
    by (auto simp: list_all_iff)
qed

text \<open>
  C2 (amended). Without a prompt the endpoint fails with the error 400 and asks for no
  image. With a prompt \<open>pre @ "style of " @ name @ t @ rest\<close>, where \<open>name\<close> is an artist of
  the two lists other than J.M.W. Turner, \<open>t\<close> a full stop or a comma, and neither \<open>pre\<close> nor
  \<open>rest\<close> holds another match, the new prompt is \<open>pre @ "style of " @ new @ "." @ rest\<close>: it
  is sent to the image service and, when an image comes back, stored with it. The new
  artist is any name of the list of the router, the previous one included.
\<close>

theorem regenerate_image_replaces_artist:
  assumes "find (\<lambda>x. digest.id x = did) (digests d) = Some g"
  shows "(digest.image_prompt g = None \<or> digest.image_prompt g = Some [] \<longrightarrow>
            result (regenerate_image w did d) =
              Inl (HTTPException 400 ''No image prompt available'') \<and>
            requested (regenerate_image w did d) = [] \<and>
            committed (regenerate_image w did d) = []) \<and>
         (\<forall>pre name t rest url.
            digest.image_prompt g = Some (pre @ ''style of '' @ name @ t # rest) \<and>
            name \<in> set palette \<and> name \<noteq> ''J.M.W. Turner'' \<and>
            (t = CHR ''.'' \<or> t = CHR '','') \<and>
            (\<forall>i < length pre.
               style_at (drop i (pre @ ''style of '' @ name @ t # rest)) = None) \<and>
            (\<forall>i < length rest. style_at (drop i rest) = None) \<and>
            generate_image w
              (pre @ ''style of '' @ ARTISTS ! (choice w mod length ARTISTS) @ ''.'' @ rest) =
              Some url \<and>
            url \<noteq> [] \<longrightarrow>
            result (regenerate_image w did d) =
              Inr (url, pre @ ''style of '' @ ARTISTS ! (choice w mod length ARTISTS) @ ''.''
                          @ rest) \<and>
            requested (regenerate_image w did d) =
              [pre @ ''style of '' @ ARTISTS ! (choice w mod length ARTISTS) @ ''.'' @ rest] \<and>
            find (\<lambda>x. digest.id x = did) (digests (stored (regenerate_image w did d))) =
              Some (g\<lparr>digest.image_url := Some url,
                       digest.image_prompt :=
                         Some (pre @ ''style of '' @ ARTISTS ! (choice w mod length ARTISTS)
                                 @ ''.'' @ rest)\<rparr>)) \<and>
         ARTISTS ! (choice w mod length ARTISTS) \<in> set ARTISTS"
proof (intro conjI allI impI)
  assume "digest.image_prompt g = None \<or> digest.image_prompt g = Some []"
  from regenerate_image_no_prompt[OF assms this, of w]
  show "result (regenerate_image w did d) = Inl (HTTPException 400 ''No image prompt available'')"
    and "requested (regenerate_image w did d) = []"
    and "committed (regenerate_image w did d) = []"
    by (simp_all add: http_failure_def)
next
  show "ARTISTS ! (choice w mod length ARTISTS) \<in> set ARTISTS"
    by (rule chosen_in_ARTISTS)
next
  fix pre name t rest url
  let ?new = "ARTISTS ! (choice w mod length ARTISTS)"
  let ?old = "pre @ ''style of '' @ name @ t # rest"
  let ?np = "pre @ ''style of '' @ ?new @ ''.'' @ rest"
  assume a: "digest.image_prompt g = Some ?old \<and>
            name \<in> set palette \<and> name \<noteq> ''J.M.W. Turner'' \<and>
            (t = CHR ''.'' \<or> t = CHR '','') \<and>
            (\<forall>i < length pre. style_at (drop i ?old) = None) \<and>
            (\<forall>i < length rest. style_at (drop i rest) = None) \<and>
            generate_image w ?np = Some url \<and> url \<noteq> []"
  from a have ip: "digest.image_prompt g = Some ?old" by (rule conjunct1)
  from a have m1: "name \<in> set palette" by (elim conjE)
  from a have m2: "name \<noteq> ''J.M.W. Turner''" by (elim conjE)
  from palette_name_chars[OF m1 m2]
  have n1: "name \<noteq> []" and n2: "list_all name_char name" by blast+
  from a have n3: "t = CHR ''.'' \<or> t = CHR '',''" by (elim conjE)
  from a have n4: "\<forall>i < length pre. style_at (drop i ?old) = None" by (elim conjE)
  from a have n5: "\<forall>i < length rest. style_at (drop i rest) = None" by (elim conjE)
  from a have n6: "generate_image w ?np = Some url" by (elim conjE)
  from a have u: "url \<noteq> []" by (elim conjE)
  have s: "re_sub_style ?new ?old = ?np"
    by (rule re_sub_style_one_match[OF n1 n2 n3 n4 n5])
  have ne: "?old \<noteq> []" by simp
  have gi: "generate_image w (re_sub_style ?new ?old) = Some url"
    unfolding s by (rule n6)
  note r = regenerate_image_success[OF assms ip ne gi u]
  have i: "digest.id (g\<lparr>digest.image_url := Some url, digest.image_prompt := Some ?np\<rparr>) = did"
    using find_digest_id[OF assms] by simp
  note f = find_put_digest[OF assms i]
  show "result (regenerate_image w did d) = Inr (url, ?np)"
    unfolding r s by simp
  show "requested (regenerate_image w did d) = [?np]"
    unfolding r s by simp
  show "find (\<lambda>x. digest.id x = did) (digests (stored (regenerate_image w did d))) =
              Some (g\<lparr>digest.image_url := Some url, digest.image_prompt := Some ?np\<rparr>)"
    unfolding r s using f by simp
qed


lemma all_less_list: "(\<forall>i < n. P i) \<longleftrightarrow> list_all P [0..<n]"
  by (auto simp: list_all_iff)

lemma monet_find:
  "find (\<lambda>x. digest.id x = 1) (digests monet_db) =
     Some (example_digest\<lparr>digest.status := ''completed'',
          digest.image_url := Some ''data:image/png;base64,AAAA'',
          digest.image_prompt :=
            Some ''Painting in the style of Monet. Bold brushwork. Scene: a foggy harbor.''\<rparr>)"
  by (simp add: monet_db_def example_digest_def)

lemma monet_matchless:
  "\<forall>i < length ''Painting in the ''.
     style_at (drop i (''Painting in the '' @ ''style of '' @ ''Monet'' @
        CHR ''.'' # '' Bold brushwork. Scene: a foggy harbor.'')) = None"
  "\<forall>i < length '' Bold brushwork. Scene: a foggy harbor.''.
     style_at (drop i '' Bold brushwork. Scene: a foggy harbor.'') = None"
  by (simp_all add: all_less_list upt_rec_numeral style_at_def startswith_def)

theorem regenerate_image_replaces_artist_witness:
  "result (regenerate_image (painter 5) 1 monet_db) =
     Inr (''data:image/png;base64,BBBB'',
          ''Painting in the style of Klee. Bold brushwork. Scene: a foggy harbor.'') \<and>
   requested (regenerate_image (painter 5) 1 monet_db) =
     [''Painting in the style of Klee. Bold brushwork. Scene: a foggy harbor.''] \<and>
   result (regenerate_image (painter 5) 1 example_db) =
     Inl (HTTPException 400 ''No image prompt available'') \<and>
   requested (regenerate_image (painter 5) 1 example_db) = []"
proof -
  let ?g = "example_digest\<lparr>digest.status := ''completed'',
          digest.image_url := Some ''data:image/png;base64,AAAA'',
          digest.image_prompt :=
            Some ''Painting in the style of Monet. Bold brushwork. Scene: a foggy harbor.''\<rparr>"
  let ?pre = "''Painting in the ''"
  let ?rest = "'' Bold brushwork. Scene: a foggy harbor.''"
  have k: "ARTISTS ! (choice (painter 5) mod length ARTISTS) = ''Klee''"
    by (simp add: painter_def ARTISTS_def)
  have p: "digest.image_prompt ?g =
      Some (?pre @ ''style of '' @ ''Monet'' @ CHR ''.'' # ?rest)"
    by simp
  have n: "''Monet'' \<in> set palette" "''Monet'' \<noteq> ''J.M.W. Turner''"
    "CHR ''.'' = CHR ''.'' \<or> CHR ''.'' = CHR '',''"
    by (simp_all add: palette_names)
  have gi: "generate_image (painter 5)
      (?pre @ ''style of '' @ ARTISTS ! (choice (painter 5) mod length ARTISTS) @ ''.'' @ ?rest) =
      Some ''data:image/png;base64,BBBB''"
    by (simp add: painter_def)
  have u: "''data:image/png;base64,BBBB'' \<noteq> []" by simp
  have np: "digest.image_prompt example_digest = None \<or> digest.image_prompt example_digest = Some []"
    by (simp add: example_digest_def)
  from regenerate_image_replaces_artist[OF monet_find, of "painter 5"]
  have "\<forall>pre name t rest url.
            digest.image_prompt ?g = Some (pre @ ''style of '' @ name @ t # rest) \<and>
            name \<in> set palette \<and> name \<noteq> ''J.M.W. Turner'' \<and>
            (t = CHR ''.'' \<or> t = CHR '','') \<and>
            (\<forall>i < length pre.
               style_at (drop i (pre @ ''style of '' @ name @ t # rest)) = None) \<and>
            (\<forall>i < length rest. style_at (drop i rest) = None) \<and>
            generate_image (painter 5)
              (pre @ ''style of '' @ ARTISTS ! (choice (painter 5) mod length ARTISTS) @ ''.'' @ rest) =
              Some url \<and>
            url \<noteq> [] \<longrightarrow>
            result (regenerate_image (painter 5) 1 monet_db) =
              Inr (url, pre @ ''style of '' @ ARTISTS ! (choice (painter 5) mod length ARTISTS) @ ''.''
                          @ rest) \<and>
            requested (regenerate_image (painter 5) 1 monet_db) =
              [pre @ ''style of '' @ ARTISTS ! (choice (painter 5) mod length ARTISTS) @ ''.'' @ rest] \<and>
            find (\<lambda>x. digest.id x = 1) (digests (stored (regenerate_image (painter 5) 1 monet_db))) =
              Some (?g\<lparr>digest.image_url := Some url,
                       digest.image_prompt :=
                         Some (pre @ ''style of '' @ ARTISTS ! (choice (painter 5) mod length ARTISTS)
                                 @ ''.'' @ rest)\<rparr>)"
    by (elim conjE)
  from this[rule_format, of ?pre "''Monet''" "CHR ''.''" ?rest "''data:image/png;base64,BBBB''"]
    p n monet_matchless gi u
  have a: "result (regenerate_image (painter 5) 1 monet_db) =
              Inr (''data:image/png;base64,BBBB'',
                   ?pre @ ''style of '' @ ARTISTS ! (choice (painter 5) mod length ARTISTS) @ ''.''
                     @ ?rest)"
    and b: "requested (regenerate_image (painter 5) 1 monet_db) =
              [?pre @ ''style of '' @ ARTISTS ! (choice (painter 5) mod length ARTISTS) @ ''.''
                 @ ?rest]"
    by blast+
  from regenerate_image_replaces_artist[OF example_find, of "painter 5"] np
  have c: "result (regenerate_image (painter 5) 1 example_db) =
             Inl (HTTPException 400 ''No image prompt available'')"
    and e: "requested (regenerate_image (painter 5) 1 example_db) = []"
    by blast+
  from a b c e show ?thesis unfolding k by simp
qed

lemma re_sub_style_examples:
  "re_sub_style ''Monet''
      ''Painting in the style of Monet. Bold brushwork. Scene: a foggy harbor.'' =
      ''Painting in the style of Monet. Bold brushwork. Scene: a foggy harbor.''"
  "re_sub_style ''Klee'' ''In the style of Monet, or in the style of Manet.'' =
     ''In the style of Klee. or in the style of Klee.''"
  "re_sub_style ''Klee'' ''Painting in the style of J.M.W. Turner. Romantic sublime.'' =
     ''Painting in the style of Klee.M.W. Turner. Romantic sublime.''"
proof -
  have c: "name_char CHR ''M''" "name_char CHR ''o''" "name_char CHR ''n''" "name_char CHR ''e''"
    "name_char CHR ''t''" "name_char CHR ''J''" "name_char CHR ''a''"
    "\<not> name_char CHR ''.''" "\<not> name_char CHR '',''"
    by (simp_all add: name_char_def word_char_def isspace_def)
  show "re_sub_style ''Monet''
      ''Painting in the style of Monet. Bold brushwork. Scene: a foggy harbor.'' =
      ''Painting in the style of Monet. Bold brushwork. Scene: a foggy harbor.''"
    by (simp add: style_at_def startswith_def c)
  show "re_sub_style ''Klee'' ''In the style of Monet, or in the style of Manet.'' =
     ''In the style of Klee. or in the style of Klee.''"
    by (simp add: style_at_def startswith_def c)
  show "re_sub_style ''Klee'' ''Painting in the style of J.M.W. Turner. Romantic sublime.'' =
     ''Painting in the style of Klee.M.W. Turner. Romantic sublime.''"
    by (simp add: style_at_def startswith_def c)
qed

theorem regenerate_image_same_artist_counterexample:
  "result (regenerate_image (painter 1) 1 monet_db) =
     Inr (''data:image/png;base64,BBBB'',
          ''Painting in the style of Monet. Bold brushwork. Scene: a foggy harbor.'') \<and>
   re_sub_style ''Klee'' ''In the style of Monet, or in the style of Manet.'' =
     ''In the style of Klee. or in the style of Klee.''"
proof -
  have k: "ARTISTS ! (choice (painter 1) mod length ARTISTS) = ''Monet''"
    by (simp add: painter_def ARTISTS_def)
  have p: "digest.image_prompt (example_digest\<lparr>digest.status := ''completed'',
          digest.image_url := Some ''data:image/png;base64,AAAA'',
          digest.image_prompt :=
            Some ''Painting in the style of Monet. Bold brushwork. Scene: a foggy harbor.''\<rparr>) =
      Some ''Painting in the style of Monet. Bold brushwork. Scene: a foggy harbor.''"
    by simp
  have gi: "generate_image (painter 1)
      (re_sub_style (ARTISTS ! (choice (painter 1) mod length ARTISTS))
         ''Painting in the style of Monet. Bold brushwork. Scene: a foggy harbor.'') =
      Some ''data:image/png;base64,BBBB''"
    by (simp add: painter_def)
  have ne: "''Painting in the style of Monet. Bold brushwork. Scene: a foggy harbor.'' \<noteq> []"
    and u: "''data:image/png;base64,BBBB'' \<noteq> []"
    by simp_all
  have "result (regenerate_image (painter 1) 1 monet_db) =
     Inr (''data:image/png;base64,BBBB'',
          re_sub_style (ARTISTS ! (choice (painter 1) mod length ARTISTS))
          ''Painting in the style of Monet. Bold brushwork. Scene: a foggy harbor.'')"
    unfolding regenerate_image_success[OF monet_find p ne gi u]
    by (simp del: re_sub_style.simps)
  then show ?thesis
    unfolding k re_sub_style_examples(1) using re_sub_style_examples(2) by simp
qed

end
